theory Spec2Isabelle
  imports Main
begin

section \<open>Strings\<close>

text \<open>
  A JavaScript string is a sequence of UTF-16 code units. The model keeps that: a string is
  a list of code units, each a natural number, so that the characters the source mentions
  beyond Latin-1 (the ellipsis U+2026, the Unicode white space of \<open>\s\<close> and \<open>trim\<close>) and the
  result of a \<open>\uXXXX\<close> escape are all representable. \<open>str\<close> turns an ASCII literal into
  such a list; the backslash is written as the code unit 92 and the double quote as 34.
\<close>

type_synonym jsstring = "nat list"

definition str :: "string \<Rightarrow> jsstring" where
  "str s = map of_char s"

text \<open>White space as \<open>String.prototype.trim\<close> and the regular expression class \<open>\s\<close> see it.\<close>

definition isSpace :: "nat \<Rightarrow> bool" where
  "isSpace c \<longleftrightarrow>
     c = 9 \<or> c = 10 \<or> c = 11 \<or> c = 12 \<or> c = 13 \<or> c = 32 \<or> c = 160 \<or> c = 5760 \<or>
     (8192 \<le> c \<and> c \<le> 8202) \<or> c = 8232 \<or> c = 8233 \<or> c = 8239 \<or> c = 8287 \<or>
     c = 12288 \<or> c = 65279"

definition trim :: "jsstring \<Rightarrow> jsstring" where
  "trim s = rev (dropWhile isSpace (rev (dropWhile isSpace s)))"

text \<open>
  \<open>s.includes(p)\<close>, here \<open>includes_js s p\<close>; the decimal text of a non-negative integer as a
  template literal prints it, and the number that a run of decimal digits writes.
\<close>

fun startsWith :: "jsstring \<Rightarrow> jsstring \<Rightarrow> bool" where
  "startsWith s [] = True"
| "startsWith [] (p # ps) = False"
| "startsWith (c # cs) (p # ps) = (c = p \<and> startsWith cs ps)"

fun includes_js :: "jsstring \<Rightarrow> jsstring \<Rightarrow> bool" where
  "includes_js [] p = (p = [])"
| "includes_js (c # cs) p = (startsWith (c # cs) p \<or> includes_js cs p)"

fun numToString :: "nat \<Rightarrow> jsstring" where
  "numToString n = (if n < 10 then [48 + n] else numToString (n div 10) @ [48 + n mod 10])"

declare numToString.simps [simp del]

definition isDigit :: "nat \<Rightarrow> bool" where
  "isDigit c \<longleftrightarrow> 48 \<le> c \<and> c \<le> 57"

definition isHex :: "nat \<Rightarrow> bool" where
  "isHex c \<longleftrightarrow> (48 \<le> c \<and> c \<le> 57) \<or> (97 \<le> c \<and> c \<le> 102) \<or> (65 \<le> c \<and> c \<le> 70)"

definition digitsValue :: "jsstring \<Rightarrow> nat" where
  "digitsValue ds = foldl (\<lambda>a d. 10 * a + (d - 48)) 0 ds"

text \<open>\<open>ds\<close> is the decimal numeral of \<open>n\<close>: digits only, of value \<open>n\<close>, with a leading zero only
  when it is the numeral \<open>0\<close>.\<close>

definition decimalOf :: "nat \<Rightarrow> jsstring \<Rightarrow> bool" where
  "decimalOf n ds \<longleftrightarrow>
     ds \<noteq> [] \<and> list_all isDigit ds \<and> digitsValue ds = n \<and> (hd ds = 48 \<longrightarrow> ds = [48])"


section \<open>JavaScript values and \<open>JSON.parse\<close>\<close>

text \<open>
  \<open>JSON.parse\<close> is the host's; the model follows the JSON grammar of ECMA-262: a lexer to
  tokens, then a parser with an explicit stack. A number keeps its text, since its value
  as a double is not modelled. An object is its members in order of first appearance, a
  repeated name overwriting the earlier value in place, as \<open>CreateDataProperty\<close> does; the
  order in which the host would enumerate names that are array indices is not modelled.
\<close>

datatype json =
    JNull
  | JBool bool
  | JNumber jsstring
  | JString jsstring
  | JArray "json list"
  | JObject "(jsstring \<times> json) list"

datatype token =
    TLBracket | TRBracket | TLBrace | TRBrace | TColon | TComma
  | TString jsstring | TNumber jsstring | TTrue | TFalse | TNull

definition hexDigit :: "nat \<Rightarrow> nat" where
  "hexDigit c = (if c \<le> 57 then c - 48 else if c \<le> 70 then c - 55 else c - 87)"

definition unescape :: "nat \<Rightarrow> nat option" where
  "unescape e =
     (if e = 34 \<or> e = 92 \<or> e = 47 then Some e
      else if e = 98 then Some 8
      else if e = 102 then Some 12
      else if e = 110 then Some 10
      else if e = 114 then Some 13
      else if e = 116 then Some 9
      else None)"

text \<open>The characters of a string after its opening quote: the decoded value and the text that
  follows the closing quote.\<close>

fun lexString :: "jsstring \<Rightarrow> (jsstring \<times> jsstring) option" where
  "lexString [] = None"
| "lexString (c # cs) =
     (if c = 34 then Some ([], cs)
      else if c = 92 then
        (case cs of
           [] \<Rightarrow> None
         | e # es \<Rightarrow>
             if e = 117 then
               (case es of
                  h1 # h2 # h3 # h4 # rest \<Rightarrow>
                    if isHex h1 \<and> isHex h2 \<and> isHex h3 \<and> isHex h4 then
                      map_option
                        (\<lambda>(v, r). ((((hexDigit h1 * 16 + hexDigit h2) * 16 + hexDigit h3) * 16
                                      + hexDigit h4) # v, r))
                        (lexString rest)
                    else None
                | _ \<Rightarrow> None)
             else
               (case unescape e of
                  None \<Rightarrow> None
                | Some x \<Rightarrow> map_option (\<lambda>(v, r). (x # v, r)) (lexString es)))
      else if c < 32 then None
      else map_option (\<lambda>(v, r). (c # v, r)) (lexString cs))"

text \<open>A number: \<open>-? (0 | [1-9][0-9]*) (. [0-9]+)? ([eE] [+-]? [0-9]+)?\<close>, the longest such
  prefix; its text and the text that follows.\<close>

definition lexInt :: "jsstring \<Rightarrow> (jsstring \<times> jsstring) option" where
  "lexInt s =
     (case s of
        [] \<Rightarrow> None
      | d # ds \<Rightarrow>
          if d = 48 then Some ([48], ds)
          else if isDigit d then Some (d # takeWhile isDigit ds, dropWhile isDigit ds)
          else None)"

definition lexFraction :: "jsstring \<Rightarrow> (jsstring \<times> jsstring) option" where
  "lexFraction s =
     (case s of
        [] \<Rightarrow> Some ([], [])
      | c # cs \<Rightarrow>
          if c = 46 then
            (if takeWhile isDigit cs = [] then None
             else Some (46 # takeWhile isDigit cs, dropWhile isDigit cs))
          else Some ([], s))"

definition lexExponent :: "jsstring \<Rightarrow> (jsstring \<times> jsstring) option" where
  "lexExponent s =
     (case s of
        [] \<Rightarrow> Some ([], [])
      | c # cs \<Rightarrow>
          if c = 101 \<or> c = 69 then
            (let sign = (case cs of [] \<Rightarrow> [] | g # gs \<Rightarrow> if g = 43 \<or> g = 45 then [g] else []);
                 ds = drop (length sign) cs
             in if takeWhile isDigit ds = [] then None
                else Some (c # sign @ takeWhile isDigit ds, dropWhile isDigit ds))
          else Some ([], s))"

definition lexNumber :: "jsstring \<Rightarrow> (jsstring \<times> jsstring) option" where
  "lexNumber s =
     (let sign = (case s of [] \<Rightarrow> [] | c # cs \<Rightarrow> if c = 45 then [45] else [])
      in case lexInt (drop (length sign) s) of
           None \<Rightarrow> None
         | Some (i, s1) \<Rightarrow>
             (case lexFraction s1 of
                None \<Rightarrow> None
              | Some (f, s2) \<Rightarrow>
                  (case lexExponent s2 of
                     None \<Rightarrow> None
                   | Some (e, s3) \<Rightarrow> Some (sign @ i @ f @ e, s3))))"

lemma lexString_cases:
  assumes "lexString (c # cs) = Some (v, r)"
  shows "r = cs \<or> (\<exists>ys w. lexString ys = Some (w, r) \<and> length ys \<le> length cs)"
proof (cases "c = 92")
  case False
  then show ?thesis
    using assms by (auto split: if_splits)
next
  case True
  then obtain e es where cs: "cs = e # es"
    using assms by (cases cs) auto
  show ?thesis
  proof (cases "e = 117")
    case False
    then have "\<exists>w. lexString es = Some (w, r)"
      using assms True cs by (auto split: option.splits)
    then show ?thesis
      using cs by auto
  next
    case u: True
    then obtain h1 h2 h3 h4 rest where es: "es = h1 # h2 # h3 # h4 # rest"
      using assms True cs by (auto split: list.splits)
    then have "\<exists>w. lexString rest = Some (w, r)"
      using assms True cs u by (auto split: if_splits)
    then show ?thesis
      using cs es by auto
  qed
qed

lemma lexString_shorter: "lexString s = Some (v, r) \<Longrightarrow> length r < length s"
proof (induction s arbitrary: v r rule: length_induct)
  case (1 xs)
  show ?case
  proof (cases xs)
    case Nil
    then show ?thesis
      using 1(2) by simp
  next
    case (Cons c cs)
    from lexString_cases [OF 1(2) [unfolded Cons]] show ?thesis
    proof
      assume "r = cs"
      then show ?thesis
        using Cons by simp
    next
      assume "\<exists>ys w. lexString ys = Some (w, r) \<and> length ys \<le> length cs"
      then obtain ys w where y: "lexString ys = Some (w, r)" "length ys \<le> length cs"
        by blast
      then have "length r < length ys"
        using 1(1) Cons by simp
      then show ?thesis
        using y(2) Cons by simp
    qed
  qed
qed

lemma lexInt_shorter: "lexInt s = Some (v, r) \<Longrightarrow> length r < length s"
  by (auto simp: lexInt_def less_Suc_eq_le length_dropWhile_le split: list.splits if_splits)

lemma lexFraction_shorter: "lexFraction s = Some (v, r) \<Longrightarrow> length r \<le> length s"
  by (auto simp: lexFraction_def length_dropWhile_le le_SucI split: list.splits if_splits)

lemma lexExponent_shorter: "lexExponent s = Some (v, r) \<Longrightarrow> length r \<le> length s"
proof (cases s)
  case Nil
  then show "lexExponent s = Some (v, r) \<Longrightarrow> length r \<le> length s"
    by (simp add: lexExponent_def)
next
  case (Cons c cs)
  assume a: "lexExponent s = Some (v, r)"
  then have "r = s \<or> (\<exists>n. r = dropWhile isDigit (drop n cs))"
    unfolding Cons by (auto simp: lexExponent_def Let_def split: if_splits)
  moreover have "length (dropWhile isDigit (drop n cs)) \<le> length cs" for n
    using length_dropWhile_le [of isDigit "drop n cs"] by simp
  ultimately show "length r \<le> length s"
    unfolding Cons by (auto simp: le_SucI)
qed

lemma lexNumber_shorter: "lexNumber s = Some (v, r) \<Longrightarrow> length r < length s"
proof -
  assume a: "lexNumber s = Some (v, r)"
  define sign where "sign = (case s of [] \<Rightarrow> [] | c # cs \<Rightarrow> if c = 45 then [45::nat] else [])"
  from a obtain i s1 f s2 e where
    i: "lexInt (drop (length sign) s) = Some (i, s1)"
    and f: "lexFraction s1 = Some (f, s2)"
    and e: "lexExponent s2 = Some (e, r)"
    unfolding lexNumber_def Let_def sign_def [symmetric]
    by (auto split: option.splits)
  have "length s1 < length (drop (length sign) s)"
    using i by (rule lexInt_shorter)
  moreover have "length s2 \<le> length s1"
    using f by (rule lexFraction_shorter)
  moreover have "length r \<le> length s2"
    using e by (rule lexExponent_shorter)
  ultimately show ?thesis
    by simp
qed

function lexJson :: "jsstring \<Rightarrow> token list option" where
  "lexJson [] = Some []"
| "lexJson (c # cs) =
     (if c = 9 \<or> c = 10 \<or> c = 13 \<or> c = 32 then lexJson cs
      else if c = 91 then map_option ((#) TLBracket) (lexJson cs)
      else if c = 93 then map_option ((#) TRBracket) (lexJson cs)
      else if c = 123 then map_option ((#) TLBrace) (lexJson cs)
      else if c = 125 then map_option ((#) TRBrace) (lexJson cs)
      else if c = 58 then map_option ((#) TColon) (lexJson cs)
      else if c = 44 then map_option ((#) TComma) (lexJson cs)
      else if c = 34 then
        (case lexString cs of
           None \<Rightarrow> None
         | Some (v, rest) \<Rightarrow> map_option ((#) (TString v)) (lexJson rest))
      else if c = 45 \<or> isDigit c then
        (case lexNumber (c # cs) of
           None \<Rightarrow> None
         | Some (n, rest) \<Rightarrow> map_option ((#) (TNumber n)) (lexJson rest))
      else if startsWith (c # cs) (str ''true'') then map_option ((#) TTrue) (lexJson (drop 3 cs))
      else if startsWith (c # cs) (str ''false'') then map_option ((#) TFalse) (lexJson (drop 4 cs))
      else if startsWith (c # cs) (str ''null'') then map_option ((#) TNull) (lexJson (drop 3 cs))
      else None)"
  by pat_completeness auto
termination
proof (relation "measure length")
  show "wf (measure length)"
    by simp
next
  fix c :: nat and cs x y :: jsstring and x2 :: "jsstring \<times> jsstring"
  assume "lexString cs = Some x2" "(x, y) = x2"
  then have "length y < length cs"
    using lexString_shorter [of cs x y] by simp
  then show "(y, c # cs) \<in> measure length"
    by simp
next
  fix c :: nat and cs x y :: jsstring and x2 :: "jsstring \<times> jsstring"
  assume "lexNumber (c # cs) = Some x2" "(x, y) = x2"
  then show "(y, c # cs) \<in> measure length"
    using lexNumber_shorter [of "c # cs" x y] by simp
qed auto

text \<open>The parser: a stack of the arrays and objects that are open, and what may come next.\<close>

datatype frame = InArray "json list" | InObject "(jsstring \<times> json) list" jsstring

datatype expecting =
    Value | ValueOrEnd | NameOrEnd | Name | Colon jsstring | CommaOrEnd | Nothing json

fun setMember :: "jsstring \<Rightarrow> json \<Rightarrow> (jsstring \<times> json) list \<Rightarrow> (jsstring \<times> json) list" where
  "setMember name v [] = [(name, v)]"
| "setMember name v ((n, w) # members) =
     (if n = name then (n, v) # members else (n, w) # setMember name v members)"

fun deliver :: "json \<Rightarrow> frame list \<Rightarrow> (expecting \<times> frame list)" where
  "deliver v [] = (Nothing v, [])"
| "deliver v (InArray items # stack) = (CommaOrEnd, InArray (items @ [v]) # stack)"
| "deliver v (InObject members name # stack) =
     (CommaOrEnd, InObject (setMember name v members) name # stack)"

fun scalar :: "token \<Rightarrow> json option" where
  "scalar (TString s) = Some (JString s)"
| "scalar (TNumber n) = Some (JNumber n)"
| "scalar TTrue = Some (JBool True)"
| "scalar TFalse = Some (JBool False)"
| "scalar TNull = Some JNull"
| "scalar t = None"

fun parseStep :: "expecting \<Rightarrow> frame list \<Rightarrow> token \<Rightarrow> (expecting \<times> frame list) option" where
  "parseStep (Nothing v) stack t = None"
| "parseStep (Colon name) stack t =
     (case (t, stack) of
        (TColon, InObject members old # rest) \<Rightarrow> Some (Value, InObject members name # rest)
      | _ \<Rightarrow> None)"
| "parseStep CommaOrEnd stack t =
     (case (t, stack) of
        (TComma, InArray items # rest) \<Rightarrow> Some (Value, stack)
      | (TComma, InObject members name # rest) \<Rightarrow> Some (Name, stack)
      | (TRBracket, InArray items # rest) \<Rightarrow> Some (deliver (JArray items) rest)
      | (TRBrace, InObject members name # rest) \<Rightarrow> Some (deliver (JObject members) rest)
      | _ \<Rightarrow> None)"
| "parseStep Name stack t = (case t of TString name \<Rightarrow> Some (Colon name, stack) | _ \<Rightarrow> None)"
| "parseStep NameOrEnd stack t =
     (case (t, stack) of
        (TString name, _) \<Rightarrow> Some (Colon name, stack)
      | (TRBrace, InObject members name # rest) \<Rightarrow> Some (deliver (JObject members) rest)
      | _ \<Rightarrow> None)"
| "parseStep ValueOrEnd stack t =
     (case (t, stack) of
        (TRBracket, InArray items # rest) \<Rightarrow> Some (deliver (JArray items) rest)
      | (TLBracket, _) \<Rightarrow> Some (ValueOrEnd, InArray [] # stack)
      | (TLBrace, _) \<Rightarrow> Some (NameOrEnd, InObject [] [] # stack)
      | _ \<Rightarrow> map_option (\<lambda>v. deliver v stack) (scalar t))"
| "parseStep Value stack t =
     (case t of
        TLBracket \<Rightarrow> Some (ValueOrEnd, InArray [] # stack)
      | TLBrace \<Rightarrow> Some (NameOrEnd, InObject [] [] # stack)
      | _ \<Rightarrow> map_option (\<lambda>v. deliver v stack) (scalar t))"

fun parseTokens :: "expecting \<Rightarrow> frame list \<Rightarrow> token list \<Rightarrow> json option" where
  "parseTokens e stack [] = (case e of Nothing v \<Rightarrow> Some v | _ \<Rightarrow> None)"
| "parseTokens e stack (t # ts) =
     (case parseStep e stack t of
        None \<Rightarrow> None
      | Some (e', stack') \<Rightarrow> parseTokens e' stack' ts)"

definition JSON_parse :: "jsstring \<Rightarrow> json option" where
  "JSON_parse text = (case lexJson text of None \<Rightarrow> None | Some ts \<Rightarrow> parseTokens Value [] ts)"

text \<open>
  What the call reads off a parsed value. \<open>truthy\<close> is \<open>ToBoolean\<close>: a number is falsy when
  its double is zero, that is when its digits are all 0 or its exact value is at most
  \<open>2 ^ -1075\<close>, half the least positive double. \<open>valueIncludes v p\<close> is \<open>v.includes(p)\<close>: the
  substring test on a string, the membership test of \<open>Array.prototype.includes\<close> on an array,
  and a TypeError (\<open>None\<close>) on a number, \<open>true\<close> or an object, which have no function of
  that name.
\<close>

definition numberIsZero :: "jsstring \<Rightarrow> bool" where
  "numberIsZero n =
     (let unsigned = (case n of [] \<Rightarrow> [] | c # cs \<Rightarrow> if c = 45 then cs else n);
          mantissa = takeWhile (\<lambda>c. c \<noteq> 101 \<and> c \<noteq> 69) unsigned;
          exponentPart = drop (length mantissa + 1) unsigned;
          intDigits = takeWhile isDigit mantissa;
          fracDigits = drop (length intDigits + 1) mantissa;
          m = digitsValue (intDigits @ fracDigits);
          written = (case exponentPart of
                       [] \<Rightarrow> 0
                     | g # ds \<Rightarrow>
                         if g = 45 then - int (digitsValue ds)
                         else if g = 43 then int (digitsValue ds)
                         else int (digitsValue exponentPart));
          e = written - int (length fracDigits)
      in m = 0 \<or> (e < 0 \<and> m * 2 ^ 1075 \<le> 10 ^ nat (- e)))"

fun truthy :: "json \<Rightarrow> bool" where
  "truthy JNull = False"
| "truthy (JBool b) = b"
| "truthy (JNumber n) = (\<not> numberIsZero n)"
| "truthy (JString s) = (s \<noteq> [])"
| "truthy (JArray items) = True"
| "truthy (JObject members) = True"

fun valueIncludes :: "json \<Rightarrow> jsstring \<Rightarrow> bool option" where
  "valueIncludes (JString s) p = Some (includes_js s p)"
| "valueIncludes (JArray items) p = Some (JString p \<in> set items)"
| "valueIncludes v p = None"


section \<open>The credential pool\<close>

text \<open>
  \<open>interface ApiKeyState\<close>, and the two module variables \<open>API_KEY_STATES\<close> and
  \<open>currentKeyIndex\<close> as one record that every operation takes and returns. The counters are
  JavaScript numbers used as non-negative integers; \<open>lastUsedAt\<close> is the reading of
  \<open>Date.now()\<close>, which the model takes as an argument. \<open>lastError\<close> is declared a string or
  \<open>null\<close> and holds whatever value \<open>markKeyError\<close> is given: the call passes it the
  \<open>error.message\<close> of a response body, which can be any JSON value.
\<close>

record ApiKeyState =
  key :: jsstring
  usageCount :: nat
  errorCount :: nat
  lastError :: "json option"
  lastUsedAt :: "int option"
  isActive :: bool

record manager =
  API_KEY_STATES :: "ApiKeyState list"
  currentKeyIndex :: nat

datatype error = Error jsstring | TypeError

definition initial :: manager where
  "initial = \<lparr>API_KEY_STATES = [], currentKeyIndex = 0\<rparr>"

definition freshKey :: "jsstring \<Rightarrow> ApiKeyState" where
  "freshKey k = \<lparr>key = trim k, usageCount = 0, errorCount = 0, lastError = None,
                 lastUsedAt = None, isActive = True\<rparr>"

definition setGeminiApiKeys :: "jsstring list \<Rightarrow> manager \<Rightarrow> (error + unit) \<times> manager" where
  "setGeminiApiKeys keys m =
     (let validKeys = filter (\<lambda>k. trim k \<noteq> []) keys in
      if length validKeys = 0 then (Inl (Error (str ''No valid API keys provided'')), m)
      else (Inr (), \<lparr>API_KEY_STATES = map freshKey validKeys, currentKeyIndex = 0\<rparr>))"

text \<open>
  The \<open>while (attempts < API_KEY_STATES.length)\<close> loop of \<open>getNextGeminiKey\<close>. It ends with the
  index of the first active entry, or with \<open>Miss\<close> after \<open>length\<close> entries; reading an entry
  that does not exist gives \<open>undefined\<close>, whose \<open>.isActive\<close> is a TypeError (\<open>Crash\<close>).
\<close>

datatype scan_result = Hit nat | Miss | Crash

function scan :: "ApiKeyState list \<Rightarrow> nat \<Rightarrow> nat \<Rightarrow> scan_result" where
  "scan states selectedIndex attempts =
     (if attempts < length states then
        (if selectedIndex < length states then
           (if isActive (states ! selectedIndex) then Hit selectedIndex
            else scan states ((selectedIndex + 1) mod length states) (attempts + 1))
         else Crash)
      else Miss)"
  by pat_completeness auto
termination
  by (relation "measure (\<lambda>(states, selectedIndex, attempts). length states - attempts)") auto

declare scan.simps [simp del]

definition select :: "int \<Rightarrow> nat \<Rightarrow> ApiKeyState list \<Rightarrow> ApiKeyState list" where
  "select now i states =
     states[i := (states ! i)\<lparr>usageCount := usageCount (states ! i) + 1, lastUsedAt := Some now\<rparr>]"

definition resetAll :: "ApiKeyState list \<Rightarrow> ApiKeyState list" where
  "resetAll states = map (\<lambda>state. state\<lparr>isActive := True, errorCount := 0\<rparr>) states"

lemma scan_Miss_first:
  "scan states c 0 = Miss \<Longrightarrow> states \<noteq> [] \<Longrightarrow> c < length states \<and> \<not> isActive (states ! c)"
  by (subst (asm) scan.simps) (auto split: if_splits)

lemma inactive_count_pos:
  assumes "c < length states" "\<not> isActive (states ! c)"
  shows "0 < length (filter (\<lambda>s. \<not> isActive s) states)"
proof -
  have "states ! c \<in> set (filter (\<lambda>s. \<not> isActive s) states)"
    using assms by simp
  then show ?thesis
    by (metis length_pos_if_in_set)
qed

lemma inactive_count_resetAll: "length (filter (\<lambda>s. \<not> isActive s) (resetAll states)) = 0"
  by (simp add: resetAll_def filter_map o_def)

function getNextGeminiKey :: "int \<Rightarrow> manager \<Rightarrow> (error + jsstring \<times> nat) \<times> manager" where
  "getNextGeminiKey now m =
     (if length (API_KEY_STATES m) = 0 then
        (Inl (Error (str ''No Gemini API keys configured. Please add API keys first.'')), m)
      else
        (case scan (API_KEY_STATES m) (currentKeyIndex m) 0 of
           Hit selectedIndex \<Rightarrow>
             (Inr (key (API_KEY_STATES m ! selectedIndex), selectedIndex),
              m\<lparr>API_KEY_STATES := select now selectedIndex (API_KEY_STATES m),
                currentKeyIndex := (selectedIndex + 1) mod length (API_KEY_STATES m)\<rparr>)
         | Crash \<Rightarrow> (Inl TypeError, m)
         | Miss \<Rightarrow> getNextGeminiKey now (m\<lparr>API_KEY_STATES := resetAll (API_KEY_STATES m)\<rparr>)))"
  by pat_completeness auto
termination
proof (relation "measure (\<lambda>(now, m). length (filter (\<lambda>s. \<not> isActive s) (API_KEY_STATES m)))")
  show "wf (measure (\<lambda>(now, m). length (filter (\<lambda>s. \<not> isActive s) (API_KEY_STATES m))))"
    by simp
next
  fix now :: int and m :: manager
  assume ne: "length (API_KEY_STATES m) \<noteq> 0"
    and miss: "scan (API_KEY_STATES m) (currentKeyIndex m) 0 = Miss"
  from scan_Miss_first [OF miss] ne
  have "0 < length (filter (\<lambda>s. \<not> isActive s) (API_KEY_STATES m))"
    using inactive_count_pos by auto
  then show "((now, m\<lparr>API_KEY_STATES := resetAll (API_KEY_STATES m)\<rparr>), (now, m))
      \<in> measure (\<lambda>(now, m). length (filter (\<lambda>s. \<not> isActive s) (API_KEY_STATES m)))"
    by (simp add: inactive_count_resetAll)
qed

declare getNextGeminiKey.simps [simp del]

definition markKeyError :: "int \<Rightarrow> json \<Rightarrow> manager \<Rightarrow> manager" where
  "markKeyError keyIndex errorMessage m =
     (if keyIndex \<ge> 0 \<and> keyIndex < int (length (API_KEY_STATES m)) then
        (let keyState = API_KEY_STATES m ! nat keyIndex;
             counted = keyState\<lparr>errorCount := errorCount keyState + 1,
                                lastError := Some errorMessage\<rparr>;
             marked = (if errorCount counted \<ge> 3 then counted\<lparr>isActive := False\<rparr> else counted)
         in m\<lparr>API_KEY_STATES := (API_KEY_STATES m)[nat keyIndex := marked]\<rparr>)
      else m)"

definition markKeySuccess :: "int \<Rightarrow> manager \<Rightarrow> manager" where
  "markKeySuccess keyIndex m =
     (if keyIndex \<ge> 0 \<and> keyIndex < int (length (API_KEY_STATES m)) then
        m\<lparr>API_KEY_STATES := (API_KEY_STATES m)
             [nat keyIndex := (API_KEY_STATES m ! nat keyIndex)\<lparr>errorCount := 0, lastError := None\<rparr>]\<rparr>
      else m)"

text \<open>
  \<open>getApiKeyStats\<close>. The text of a timestamp is \<open>toLocaleString\<close> of the host, a parameter
  here; a timestamp that is \<open>null\<close> or 0 is falsy and reads \<open>Never\<close>.
\<close>

record KeyStats =
  stat_index :: nat
  stat_usageCount :: nat
  stat_errorCount :: nat
  stat_lastError :: "json option"
  stat_isActive :: bool
  stat_lastUsedAt :: jsstring

definition getApiKeyStats :: "(int \<Rightarrow> jsstring) \<Rightarrow> manager \<Rightarrow> KeyStats list" where
  "getApiKeyStats toLocaleString m =
     map (\<lambda>(state, index).
            \<lparr>stat_index = index + 1,
             stat_usageCount = usageCount state,
             stat_errorCount = errorCount state,
             stat_lastError = lastError state,
             stat_isActive = isActive state,
             stat_lastUsedAt = (case lastUsedAt state of
                                  None \<Rightarrow> str ''Never''
                                | Some t \<Rightarrow> if t = 0 then str ''Never'' else toLocaleString t)\<rparr>)
         (zip (API_KEY_STATES m) [0 ..< length (API_KEY_STATES m)])"

text \<open>Sequences of operations on the pool, run from a given state; a throw leaves the state
  as the operation left it and the next operation goes on from there.\<close>

datatype operation =
    SetKeys "jsstring list"
  | GetNext int
  | MarkError int json
  | MarkSuccess int

fun apply_operation :: "manager \<Rightarrow> operation \<Rightarrow> manager" where
  "apply_operation m (SetKeys keys) = snd (setGeminiApiKeys keys m)"
| "apply_operation m (GetNext now) = snd (getNextGeminiKey now m)"
| "apply_operation m (MarkError keyIndex errorMessage) = markKeyError keyIndex errorMessage m"
| "apply_operation m (MarkSuccess keyIndex) = markKeySuccess keyIndex m"

definition run :: "operation list \<Rightarrow> manager \<Rightarrow> manager" where
  "run ops m = foldl apply_operation m ops"

text \<open>\<open>selections\<close> performs one \<open>getNextGeminiKey\<close> per given clock reading, in order, and
  collects what each call returned.\<close>

fun selections :: "int list \<Rightarrow> manager \<Rightarrow> (error + jsstring \<times> nat) list \<times> manager" where
  "selections [] m = ([], m)"
| "selections (now # nows) m =
     (let (r, m1) = getNextGeminiKey now m;
          (rs, m2) = selections nows m1
      in (r # rs, m2))"

fun selectedIndex :: "error + jsstring \<times> nat \<Rightarrow> nat option" where
  "selectedIndex (Inr (apiKey, index)) = Some index"
| "selectedIndex (Inl e) = None"


subsection \<open>Invariants of the pool\<close>

text \<open>The three-strikes invariant of the spec, and the range of the cursor.\<close>

definition strikes_ok :: "ApiKeyState list \<Rightarrow> bool" where
  "strikes_ok states \<longleftrightarrow> (\<forall>s \<in> set states. errorCount s \<ge> 3 \<longrightarrow> \<not> isActive s)"

definition cursor_ok :: "manager \<Rightarrow> bool" where
  "cursor_ok m \<longleftrightarrow> API_KEY_STATES m = [] \<or> currentKeyIndex m < length (API_KEY_STATES m)"

definition round_robin :: "manager \<Rightarrow> int list \<Rightarrow> bool" where
  "round_robin m ts \<longleftrightarrow>
     (let N = length (API_KEY_STATES m); c = currentKeyIndex m;
          rs = fst (selections ts m); m' = snd (selections ts m)
      in rs = map (\<lambda>i. Inr (key (API_KEY_STATES m ! ((c + i) mod N)), (c + i) mod N)) [0 ..< length ts]
       \<and> currentKeyIndex m' = (c + length ts) mod N
       \<and> length (API_KEY_STATES m') = N
       \<and> (\<forall>s \<in> set (API_KEY_STATES m'). isActive s)
       \<and> map key (API_KEY_STATES m') = map key (API_KEY_STATES m)
       \<and> (\<forall>j < N. usageCount (API_KEY_STATES m' ! j)
             = usageCount (API_KEY_STATES m ! j)
               + count_list (map (\<lambda>i. (c + i) mod N) [0 ..< length ts]) j))"



section \<open>The retrying call\<close>

text \<open>
  What one \<open>fetch\<close> and the reading of its response can come to. \<open>Thrown\<close> is any exception
  raised between \<open>fetch\<close> and the checks on the body (a rejected request, a body that is not
  JSON), with its message. \<open>NotOk\<close> is a response whose \<open>ok\<close> is false: its status and its
  text. \<open>Ok\<close> is a response whose \<open>ok\<close> is true, with what is left of its body for the
  checks: no first candidate with content (and the \<open>promptFeedback.blockReason\<close>, if any),
  content without text, or the text of the first part.
\<close>

datatype body = NoCandidates "jsstring option" | NoText | Text jsstring

datatype reply = Thrown jsstring | NotOk nat jsstring | Ok body

text \<open>The trace of a call: every request for a credential, every outbound request (attempt
  number and credential) and every wait (in milliseconds), in order.\<close>

datatype event = Select nat | Fetch nat jsstring | Sleep nat

text \<open>
  \<open>errorMessage\<close> of a response that is not ok: \<open>errorData.error?.message || errorText\<close>
  inside a \<open>try\<close> whose \<open>catch\<close> keeps \<open>errorText\<close>. A text that is not JSON, and the text
  \<open>null\<close> (whose \<open>.error\<close> is a TypeError), keep \<open>errorText\<close>; so does every value whose
  \<open>error\<close> is missing, \<open>null\<close> or not an object, and every \<open>message\<close> that is missing or
  falsy. Any other \<open>message\<close> is taken as it is, string or not.
\<close>

definition errorMessageOf :: "jsstring \<Rightarrow> json" where
  "errorMessageOf errorText =
     (case JSON_parse errorText of
        Some (JObject members) \<Rightarrow>
          (case map_of members (str ''error'') of
             Some (JObject inner) \<Rightarrow>
               (case map_of inner (str ''message'') of
                  Some message \<Rightarrow> if truthy message then message else JString errorText
                | None \<Rightarrow> JString errorText)
           | _ \<Rightarrow> JString errorText)
      | _ \<Rightarrow> JString errorText)"

text \<open>The \<open>catch\<close> block of the loop body.\<close>

definition caught :: "jsstring \<Rightarrow> int \<Rightarrow> nat \<Rightarrow> nat \<Rightarrow> manager
    \<Rightarrow> jsstring option \<times> manager \<times> event list" where
  "caught message keyIndex attemptCount maxTotalRetries m =
     (None, markKeyError keyIndex (JString message) m,
      if attemptCount < maxTotalRetries then [Sleep 10000] else [])"

text \<open>
  The \<open>try\<close> block after \<open>fetch\<close>: the text to return, or \<open>None\<close> for \<open>continue\<close> and for the
  end of the \<open>catch\<close> block; the pool as the marking left it; the waits. The tests
  \<open>status === 403 && errorMessage.includes(...)\<close> and \<open>status === 400 && ...\<close> call
  \<open>includes\<close> only when the status is the one named; on an \<open>errorMessage\<close> without that
  function the call throws after the error has been marked, and the \<open>catch\<close> block marks the
  credential again, with the message of the host's TypeError (\<open>typeError\<close>, by status).
\<close>

definition handleReply :: "(nat \<Rightarrow> jsstring) \<Rightarrow> reply \<Rightarrow> int \<Rightarrow> nat \<Rightarrow> nat \<Rightarrow> manager
    \<Rightarrow> jsstring option \<times> manager \<times> event list" where
  "handleReply typeError r keyIndex attemptCount maxTotalRetries m =
     (case r of
        Thrown message \<Rightarrow> caught message keyIndex attemptCount maxTotalRetries m
      | NotOk status errorText \<Rightarrow>
          (let errorMessage = errorMessageOf errorText;
               m1 = markKeyError keyIndex errorMessage m
           in case (if status = 403
                      then valueIncludes errorMessage (str ''unregistered callers'')
                    else Some False) of
                None \<Rightarrow> caught (typeError 403) keyIndex attemptCount maxTotalRetries m1
              | Some True \<Rightarrow> (None, m1, [Sleep 10000])
              | Some False \<Rightarrow>
                  (case (if status = 400
                           then valueIncludes errorMessage (str ''API key not valid'')
                         else Some False) of
                     None \<Rightarrow> caught (typeError 400) keyIndex attemptCount maxTotalRetries m1
                   | Some True \<Rightarrow> (None, m1, [])
                   | Some False \<Rightarrow>
                       if status = 429 \<or> status \<ge> 500 then (None, m1, [Sleep 10000])
                       else (None, m1, [Sleep 10000])))
      | Ok (NoCandidates blockReason) \<Rightarrow>
          (if blockReason \<noteq> None \<and> blockReason \<noteq> Some []
             then caught (str ''Content blocked by Gemini: '' @ the blockReason)
                    keyIndex attemptCount maxTotalRetries m
           else (None, markKeyError keyIndex (JString (str ''Invalid response structure'')) m,
                 [Sleep 10000]))
      | Ok NoText \<Rightarrow>
          (None, markKeyError keyIndex (JString (str ''No text content in response'')) m,
           [Sleep 10000])
      | Ok (Text responseText) \<Rightarrow>
          (if responseText = []
             then (None, markKeyError keyIndex (JString (str ''No text content in response'')) m,
                   [Sleep 10000])
           else (Some responseText, markKeySuccess keyIndex m, [])))"

definition exhausted :: "nat \<Rightarrow> jsstring" where
  "exhausted attemptCount =
     str ''Failed to generate content after '' @ numToString attemptCount
     @ str '' attempts across all API keys. Please check your API keys and try again.''"

text \<open>
  The \<open>while (attemptCount < maxTotalRetries)\<close> loop. \<open>fetch n k\<close> is what the \<open>n\<close>-th
  attempt of the call comes to when it is made with credential \<open>k\<close>, \<open>clock n\<close> the reading of
  \<open>Date.now()\<close> in that attempt's selection. The result is what the call returns or throws,
  the final \<open>attemptCount\<close>, the pool and the trace.
\<close>

function retry :: "(nat \<Rightarrow> jsstring) \<Rightarrow> (nat \<Rightarrow> jsstring \<Rightarrow> reply) \<Rightarrow> (nat \<Rightarrow> int) \<Rightarrow> nat
    \<Rightarrow> nat \<Rightarrow> manager \<Rightarrow> (error + jsstring) \<times> nat \<times> manager \<times> event list" where
  "retry typeError fetch clock maxTotalRetries attemptCount m =
     (if attemptCount < maxTotalRetries then
        (case getNextGeminiKey (clock (attemptCount + 1)) m of
           (Inl e, m1) \<Rightarrow> (Inl e, attemptCount + 1, m1, [Select (attemptCount + 1)])
         | (Inr (apiKey, keyIndex), m1) \<Rightarrow>
             (case handleReply typeError (fetch (attemptCount + 1) apiKey) (int keyIndex)
                     (attemptCount + 1) maxTotalRetries m1 of
                (Some responseText, m2, waits) \<Rightarrow>
                  (Inr responseText, attemptCount + 1, m2,
                   Select (attemptCount + 1) # Fetch (attemptCount + 1) apiKey # waits)
              | (None, m2, waits) \<Rightarrow>
                  (case retry typeError fetch clock maxTotalRetries (attemptCount + 1) m2 of
                     (result, n, m3, later) \<Rightarrow>
                       (result, n, m3,
                        Select (attemptCount + 1) # Fetch (attemptCount + 1) apiKey # waits
                        @ later))))
      else (Inl (Error (exhausted attemptCount)), attemptCount, m, []))"
  by pat_completeness auto
termination
  by (relation "measure (\<lambda>(typeError, fetch, clock, maxTotalRetries, attemptCount, m).
        maxTotalRetries - attemptCount)") auto

declare retry.simps [simp del]

definition callGeminiAPI :: "(nat \<Rightarrow> jsstring) \<Rightarrow> (nat \<Rightarrow> jsstring \<Rightarrow> reply) \<Rightarrow> (nat \<Rightarrow> int)
    \<Rightarrow> jsstring \<Rightarrow> manager \<Rightarrow> (error + jsstring) \<times> nat \<times> manager \<times> event list" where
  "callGeminiAPI typeError fetch clock prompt m =
     (let maxTotalRetries = length (API_KEY_STATES m) * 3
      in if prompt = [] \<or> trim prompt = []
           then (Inl (Error (str ''Prompt cannot be empty'')), 0, m, [])
         else retry typeError fetch clock maxTotalRetries 0 m)"

text \<open>The outbound requests of a trace, and whether a reply carries text to return.\<close>

fun fetches :: "event list \<Rightarrow> (nat \<times> jsstring) list" where
  "fetches [] = []"
| "fetches (Fetch n k # es) = (n, k) # fetches es"
| "fetches (e # es) = fetches es"

fun textOf :: "reply \<Rightarrow> jsstring option" where
  "textOf (Ok (Text t)) = (if t = [] then None else Some t)"
| "textOf r = None"

text \<open>
  What a finished call looks like, for a loop entered with \<open>attemptCount\<close>: its outbound
  requests are numbered from the next attempt to the last one made; a returned text is the
  text of the last request's reply and no earlier reply had text; a throw is the exhaustion
  error with the number of attempts made, the budget is used up and no reply had text.
\<close>

definition call_ok :: "(nat \<Rightarrow> jsstring \<Rightarrow> reply) \<Rightarrow> nat \<Rightarrow> nat
    \<Rightarrow> (error + jsstring) \<times> nat \<times> manager \<times> event list \<Rightarrow> bool" where
  "call_ok fetch maxTotalRetries attemptCount outcome \<longleftrightarrow>
     (case outcome of (result, n, m', trace) \<Rightarrow>
        attemptCount \<le> n \<and> n \<le> max attemptCount maxTotalRetries
        \<and> map fst (fetches trace) = [attemptCount + 1 ..< n + 1]
        \<and> (case result of
              Inr responseText \<Rightarrow>
                fetches trace \<noteq> []
                \<and> textOf (fetch n (snd (last (fetches trace)))) = Some responseText
                \<and> (\<forall>(j, k) \<in> set (butlast (fetches trace)). textOf (fetch j k) = None)
            | Inl e \<Rightarrow>
                e = Error (exhausted n) \<and> n = max attemptCount maxTotalRetries
                \<and> (\<forall>(j, k) \<in> set (fetches trace). textOf (fetch j k) = None)))"


text \<open>The operations that configure one credential and report three errors on it.\<close>

definition struck_ops :: "operation list" where
  "struck_ops = [SetKeys [str ''k1''], MarkError 0 (JString (str ''e1'')),
     MarkError 0 (JString (str ''e2'')), MarkError 0 (JString (str ''e3''))]"

text \<open>
  A pool of one fresh credential; a host whose TypeError reads the same at both tests; a
  service that answers 429 once and then with text; one that rejects the credential with
  the body the remote service sends, one that is overloaded and one that cannot be reached;
  an error body whose message is the number 42.
\<close>

definition one_key :: manager where
  "one_key = \<lparr>API_KEY_STATES = [freshKey (str ''k1'')], currentKeyIndex = 0\<rparr>"

definition notAFunction :: "nat \<Rightarrow> jsstring" where
  "notAFunction status = str ''errorMessage.includes is not a function''"

definition flaky :: "nat \<Rightarrow> jsstring \<Rightarrow> reply" where
  "flaky n k = (if n = 1 then NotOk 429 (str ''quota'') else Ok (Text (str ''[]'')))"



definition busy_service :: "nat \<Rightarrow> jsstring \<Rightarrow> reply" where
  "busy_service n k = NotOk 503 (str ''busy'')"


definition numericMessageBody :: jsstring where
  "numericMessageBody = str ''{'' @ [34] @ str ''error'' @ [34] @ str '':{'' @ [34] @ str ''message''
     @ [34] @ str '':42}}''"


section \<open>The tolerant parser\<close>

subsection \<open>The regular expressions of the parser, as functions\<close>

text \<open>
  Every \<open>replace\<close> of the source has a pattern of one of a few shapes; each shape is a
  function here, scanning from the left and resuming after a match as \<open>replace\<close> with the
  \<open>g\<close> flag does. \<open>replaceAll ci p r\<close> is \<open>.replace(/p/g, r)\<close> for a pattern \<open>p\<close> without
  metacharacters, and \<open>.split(p).join(r)\<close>; \<open>ci\<close> is the \<open>i\<close> flag, which for these patterns
  folds the case of ASCII letters only. No pattern of the source is empty; on an empty
  pattern \<open>replaceAll\<close> returns the text unchanged.
\<close>

definition lower :: "nat \<Rightarrow> nat" where
  "lower c = (if 65 \<le> c \<and> c \<le> 90 then c + 32 else c)"

fun matchesAt :: "bool \<Rightarrow> jsstring \<Rightarrow> jsstring \<Rightarrow> bool" where
  "matchesAt ci s [] = True"
| "matchesAt ci [] (p # ps) = False"
| "matchesAt ci (c # cs) (p # ps) =
     ((if ci then lower c = lower p else c = p) \<and> matchesAt ci cs ps)"

function replaceAll :: "bool \<Rightarrow> jsstring \<Rightarrow> jsstring \<Rightarrow> jsstring \<Rightarrow> jsstring" where
  "replaceAll ci pat rep [] = []"
| "replaceAll ci pat rep (c # cs) =
     (if pat \<noteq> [] \<and> matchesAt ci (c # cs) pat
        then rep @ replaceAll ci pat rep (drop (length pat) (c # cs))
      else c # replaceAll ci pat rep cs)"
  by pat_completeness auto
termination
  by (relation "measure (\<lambda>(ci, pat, rep, s). length s)") auto

text \<open>\<open>s.replace(p, r)\<close> with a string \<open>p\<close>: the first occurrence only.\<close>

fun replaceFirst :: "jsstring \<Rightarrow> jsstring \<Rightarrow> jsstring \<Rightarrow> jsstring" where
  "replaceFirst pat rep [] = (if pat = [] then rep else [])"
| "replaceFirst pat rep (c # cs) =
     (if matchesAt False (c # cs) pat then rep @ drop (length pat) (c # cs)
      else c # replaceFirst pat rep cs)"

text \<open>\<open>.replace(/[class]/g, r)\<close>, and \<open>.replace(/\s+/g, ' ')\<close>.\<close>

definition replaceClass :: "(nat \<Rightarrow> bool) \<Rightarrow> jsstring \<Rightarrow> jsstring \<Rightarrow> jsstring" where
  "replaceClass cls rep s = concat (map (\<lambda>c. if cls c then rep else [c]) s)"

fun collapseSpaces :: "bool \<Rightarrow> jsstring \<Rightarrow> jsstring" where
  "collapseSpaces inRun [] = []"
| "collapseSpaces inRun (c # cs) =
     (if isSpace c then (if inRun then collapseSpaces True cs else 32 # collapseSpaces True cs)
      else c # collapseSpaces False cs)"

definition isOctal :: "nat \<Rightarrow> bool" where
  "isOctal c \<longleftrightarrow> 48 \<le> c \<and> c \<le> 55"

text \<open>\<open>/^\s*json\s*/gi\<close> of \<open>sanitizeJsonString\<close>, and \<open>/^json\\s*/gi\<close> of the fourth strategy,
  whose \<open>\\\<close> is a backslash to match and whose \<open>s*\<close> is a run of the letter s. Without the
  \<open>m\<close> flag \<open>^\<close> is the start of the text, so each matches at most once.\<close>

definition stripLeadingJson :: "jsstring \<Rightarrow> jsstring" where
  "stripLeadingJson s =
     (let t = dropWhile isSpace s
      in if matchesAt True t (str ''json'') then dropWhile isSpace (drop 4 t) else s)"

definition stripLeadingJsonBackslash :: "jsstring \<Rightarrow> jsstring" where
  "stripLeadingJsonBackslash s =
     (if matchesAt True s (str ''json'' @ [92])
        then dropWhile (\<lambda>c. lower c = 115) (drop 5 s)
      else s)"

text \<open>
  \<open>/,(\s*[}\]])/g\<close> replaced by \<open>$1\<close>: a comma that white space and a closing bracket follow
  goes, what follows it stays (it holds no comma, so resuming after the comma or after the
  match gives the same text). \<open>/,\s*([}\]])/g\<close> of the fifth strategy drops the white space
  as well.
\<close>

definition beforeClose :: "jsstring \<Rightarrow> bool" where
  "beforeClose s = (case dropWhile isSpace s of [] \<Rightarrow> False | c # cs \<Rightarrow> c = 125 \<or> c = 93)"

fun removeTrailingCommas :: "jsstring \<Rightarrow> jsstring" where
  "removeTrailingCommas [] = []"
| "removeTrailingCommas (c # cs) =
     (if c = 44 \<and> beforeClose cs then removeTrailingCommas cs
      else c # removeTrailingCommas cs)"

fun removeTrailingCommasAndSpace :: "bool \<Rightarrow> jsstring \<Rightarrow> jsstring" where
  "removeTrailingCommasAndSpace skipping [] = []"
| "removeTrailingCommasAndSpace skipping (c # cs) =
     (if skipping \<and> isSpace c then removeTrailingCommasAndSpace True cs
      else if c = 44 \<and> beforeClose cs then removeTrailingCommasAndSpace True cs
      else c # removeTrailingCommasAndSpace False cs)"

text \<open>
  The layout patterns of the fifth strategy: a run of white space, at least one character
  long, goes when the character before it is \<open>pre\<close> and the character after it is \<open>post\<close>
  (\<open>None\<close> where the pattern names no character on that side). In every such pattern the two
  characters differ and neither is white space, so a match never starts inside another.
\<close>

definition runThenChar :: "nat option \<Rightarrow> jsstring \<Rightarrow> bool" where
  "runThenChar post s =
     (case s of
        [] \<Rightarrow> False
      | c # cs \<Rightarrow> isSpace c \<and>
          (case post of
             None \<Rightarrow> True
           | Some p \<Rightarrow> (case dropWhile isSpace cs of [] \<Rightarrow> False | d # ds \<Rightarrow> d = p)))"

fun squeeze :: "nat option \<Rightarrow> nat option \<Rightarrow> bool \<Rightarrow> bool \<Rightarrow> jsstring \<Rightarrow> jsstring" where
  "squeeze pre post afterPre skipping [] = []"
| "squeeze pre post afterPre skipping (c # cs) =
     (if skipping \<and> isSpace c then squeeze pre post False True cs
      else if (pre = None \<or> afterPre) \<and> runThenChar post (c # cs)
        then squeeze pre post False True cs
      else c # squeeze pre post (pre = Some c) False cs)"

text \<open>
  The escapes: \<open>/\\([^"\\\/bfnrtu])/g\<close> replaced by \<open>$1\<close>, \<open>/\\x[0-9a-fA-F]{0,2}/g\<close> and
  \<open>/\\[0-7]{1,3}/g\<close> removed, \<open>/\\u[^_]/g\<close> and \<open>/\\u$/g\<close> replaced by \<open>u\<close>.
\<close>

definition validEscapeLetter :: "nat \<Rightarrow> bool" where
  "validEscapeLetter c \<longleftrightarrow>
     c = 34 \<or> c = 92 \<or> c = 47 \<or> c = 98 \<or> c = 102 \<or> c = 110 \<or> c = 114 \<or> c = 116 \<or> c = 117"

fun dropInvalidEscapes :: "jsstring \<Rightarrow> jsstring" where
  "dropInvalidEscapes (c # d # rest) =
     (if c = 92 \<and> \<not> validEscapeLetter d then d # dropInvalidEscapes rest
      else c # dropInvalidEscapes (d # rest))"
| "dropInvalidEscapes s = s"

fun removeHexEscapes :: "jsstring \<Rightarrow> jsstring" where
  "removeHexEscapes (c # d # rest) =
     (if c = 92 \<and> d = 120 then
        (case rest of
           [] \<Rightarrow> []
         | h1 # r1 \<Rightarrow>
             if isHex h1 then
               (case r1 of
                  [] \<Rightarrow> []
                | h2 # r2 \<Rightarrow> if isHex h2 then removeHexEscapes r2 else removeHexEscapes r1)
             else removeHexEscapes rest)
      else c # removeHexEscapes (d # rest))"
| "removeHexEscapes s = s"

fun removeOctalEscapes :: "jsstring \<Rightarrow> jsstring" where
  "removeOctalEscapes (c # d # rest) =
     (if c = 92 \<and> isOctal d then
        (case rest of
           [] \<Rightarrow> []
         | o2 # r2 \<Rightarrow>
             if isOctal o2 then
               (case r2 of
                  [] \<Rightarrow> []
                | o3 # r3 \<Rightarrow> if isOctal o3 then removeOctalEscapes r3 else removeOctalEscapes r2)
             else removeOctalEscapes rest)
      else c # removeOctalEscapes (d # rest))"
| "removeOctalEscapes s = s"

fun replaceBareU :: "jsstring \<Rightarrow> jsstring" where
  "replaceBareU (c # d # e # rest) =
     (if c = 92 \<and> d = 117 \<and> e \<noteq> 95 then 117 # replaceBareU rest
      else c # replaceBareU (d # e # rest))"
| "replaceBareU s = s"

fun replaceFinalU :: "jsstring \<Rightarrow> jsstring" where
  "replaceFinalU [] = []"
| "replaceFinalU (c # cs) = (if c = 92 \<and> cs = [117] then [117] else c # replaceFinalU cs)"

text \<open>
  The valid \<open>\uXXXX\<close> escapes, in order, as the callback of
  \<open>.replace(/\\u[0-9a-fA-F]{4}/g, ...)\<close> collects them, and the text it returns, in which the
  \<open>i\<close>-th of them is \<open>___VALID_UNICODE_i___\<close>.
\<close>

definition unicodeEscapeAt :: "jsstring \<Rightarrow> bool" where
  "unicodeEscapeAt s =
     (case s of
        c # u # h1 # h2 # h3 # h4 # rest \<Rightarrow>
          c = 92 \<and> u = 117 \<and> isHex h1 \<and> isHex h2 \<and> isHex h3 \<and> isHex h4
      | _ \<Rightarrow> False)"

function validUnicodes :: "jsstring \<Rightarrow> jsstring list" where
  "validUnicodes [] = []"
| "validUnicodes (c # cs) =
     (if unicodeEscapeAt (c # cs) then take 6 (c # cs) # validUnicodes (drop 6 (c # cs))
      else validUnicodes cs)"
  by pat_completeness auto
termination
  by (relation "measure length") auto

definition unicodePlaceholder :: "nat \<Rightarrow> jsstring" where
  "unicodePlaceholder index = str ''___VALID_UNICODE_'' @ numToString index @ str ''___''"

function protectUnicodes :: "nat \<Rightarrow> jsstring \<Rightarrow> jsstring" where
  "protectUnicodes index [] = []"
| "protectUnicodes index (c # cs) =
     (if unicodeEscapeAt (c # cs)
        then unicodePlaceholder index @ protectUnicodes (index + 1) (drop 6 (c # cs))
      else c # protectUnicodes index cs)"
  by pat_completeness auto
termination
  by (relation "measure (\<lambda>(index, s). length s)") auto

fun restoreUnicodes :: "nat \<Rightarrow> jsstring list \<Rightarrow> jsstring \<Rightarrow> jsstring" where
  "restoreUnicodes index [] cleaned = cleaned"
| "restoreUnicodes index (unicode # others) cleaned =
     restoreUnicodes (index + 1) others (replaceFirst (unicodePlaceholder index) unicode cleaned)"


subsection \<open>\<open>sanitizeJsonString\<close>\<close>

text \<open>
  The steps of the source in their order, one binding for each \<open>replace\<close>. In the source
  file both members of the class \<open>[""]\<close> are U+0022 and both members of \<open>['']\<close> are U+0027; the
  ellipsis is U+2026. The class of control characters of step 2 leaves out tab, line feed
  and carriage return, which the next three replacements turn into spaces.
\<close>

definition escapeProtector :: jsstring where
  "escapeProtector = str ''___ESCAPE___''"

definition isControl :: "nat \<Rightarrow> bool" where
  "isControl c \<longleftrightarrow> c \<le> 8 \<or> c = 11 \<or> c = 12 \<or> (14 \<le> c \<and> c \<le> 31) \<or> c = 127"

definition removeFences :: "jsstring \<Rightarrow> jsstring" where
  "removeFences s =
     replaceAll False (str ''```'') []
       (replaceAll True (str ''```js'') []
         (replaceAll True (str ''```javascript'') []
           (replaceAll True (str ''```json'') [] s)))"

definition protectEscapes :: "jsstring \<Rightarrow> jsstring" where
  "protectEscapes s =
     replaceAll False [92, 92] (escapeProtector @ str ''backslash'')
       (replaceAll False [92, 34] (escapeProtector @ str ''quote'')
         (replaceAll False [92, 98] (escapeProtector @ str ''b'')
           (replaceAll False [92, 102] (escapeProtector @ str ''f'')
             (replaceAll False [92, 116] (escapeProtector @ str ''t'')
               (replaceAll False [92, 114] (escapeProtector @ str ''r'')
                 (replaceAll False [92, 110] (escapeProtector @ str ''n'') s))))))"

definition restoreEscapes :: "jsstring \<Rightarrow> jsstring" where
  "restoreEscapes s =
     replaceAll False (escapeProtector @ str ''backslash'') [92, 92]
       (replaceAll False (escapeProtector @ str ''quote'') [92, 34]
         (replaceAll False (escapeProtector @ str ''b'') [92, 98]
           (replaceAll False (escapeProtector @ str ''f'') [92, 102]
             (replaceAll False (escapeProtector @ str ''t'') [92, 116]
               (replaceAll False (escapeProtector @ str ''r'') [92, 114]
                 (replaceAll False (escapeProtector @ str ''n'') [92, 110] s))))))"

definition smartQuotes :: "jsstring \<Rightarrow> jsstring" where
  "smartQuotes s =
     replaceClass (\<lambda>c. c = 8230) (str ''...'')
       (replaceClass (\<lambda>c. c = 39) [39]
         (replaceClass (\<lambda>c. c = 34) [34] s))"

definition fixUnicodeEscapes :: "jsstring \<Rightarrow> jsstring" where
  "fixUnicodeEscapes s =
     restoreUnicodes 0 (validUnicodes s) (replaceFinalU (replaceBareU (protectUnicodes 0 s)))"

definition sanitizeJsonString :: "jsstring \<Rightarrow> jsstring" where
  "sanitizeJsonString jsonString =
     (let step1 = trim (stripLeadingJson (removeFences jsonString));
          protected = protectEscapes step1;
          noControl = replaceClass isControl [32] protected;
          noBreaks = replaceClass (\<lambda>c. c = 9) [32]
                       (replaceClass (\<lambda>c. c = 13) [32]
                         (replaceClass (\<lambda>c. c = 10) [32] noControl));
          restored = restoreEscapes noBreaks;
          step3 = smartQuotes restored;
          step4 = fixUnicodeEscapes step3;
          step5 = removeTrailingCommas step4;
          step6 = collapseSpaces False step5;
          step7 = dropInvalidEscapes step6
      in replaceClass isControl [] (removeOctalEscapes (removeHexEscapes step7)))"

subsection \<open>The six strategies\<close>

datatype expectedType = Array | Object

definition openChar :: "expectedType \<Rightarrow> nat" where
  "openChar t = (case t of Array \<Rightarrow> 91 | Object \<Rightarrow> 123)"

definition closeChar :: "expectedType \<Rightarrow> nat" where
  "closeChar t = (case t of Array \<Rightarrow> 93 | Object \<Rightarrow> 125)"

fun indexOf :: "nat \<Rightarrow> jsstring \<Rightarrow> nat option" where
  "indexOf x [] = None"
| "indexOf x (c # cs) = (if c = x then Some 0 else map_option Suc (indexOf x cs))"

definition lastIndexOf :: "nat \<Rightarrow> jsstring \<Rightarrow> nat option" where
  "lastIndexOf x s = map_option (\<lambda>i. length s - 1 - i) (indexOf x (rev s))"

text \<open>\<open>s.substring(a, b)\<close>, which swaps its arguments when \<open>a > b\<close> and stops at the end of
  \<open>s\<close>; \<open>s.substring(a)\<close> is \<open>drop a s\<close>.\<close>

definition substring :: "nat \<Rightarrow> nat \<Rightarrow> jsstring \<Rightarrow> jsstring" where
  "substring a b s = take (max a b - min a b) (drop (min a b) s)"

text \<open>
  \<open>s.match(/\[[\s\S]*\]/)\<close> and \<open>s.match(/\{[\s\S]*\}/)\<close>: the star is greedy and matches any
  character, so the match runs from the first opening bracket to the last closing bracket
  of the text, and there is one exactly when the last closing bracket comes after the first
  opening one.
\<close>

definition matchBrackets :: "expectedType \<Rightarrow> jsstring \<Rightarrow> jsstring option" where
  "matchBrackets t s =
     (case indexOf (openChar t) s of
        None \<Rightarrow> None
      | Some i \<Rightarrow>
          (case lastIndexOf (closeChar t) s of
             None \<Rightarrow> None
           | Some j \<Rightarrow> if i < j then Some (substring i (j + 1) s) else None))"

text \<open>\<open>JSON.parse\<close> inside a strategy: a text that does not parse throws a SyntaxError, whose
  message is the host's (\<open>syntaxError\<close>, a function of the text).\<close>

definition parseOrThrow :: "(jsstring \<Rightarrow> jsstring) \<Rightarrow> jsstring \<Rightarrow> jsstring + json" where
  "parseOrThrow syntaxError text =
     (case JSON_parse text of None \<Rightarrow> Inl (syntaxError text) | Some v \<Rightarrow> Inr v)"

definition strategy1 :: "(jsstring \<Rightarrow> jsstring) \<Rightarrow> expectedType \<Rightarrow> jsstring \<Rightarrow> jsstring + json" where
  "strategy1 syntaxError t response =
     (case matchBrackets t response of
        None \<Rightarrow> Inl (str ''No JSON found in response'')
      | Some m \<Rightarrow> parseOrThrow syntaxError (sanitizeJsonString m))"

definition strategy2 :: "(jsstring \<Rightarrow> jsstring) \<Rightarrow> expectedType \<Rightarrow> jsstring \<Rightarrow> jsstring + json" where
  "strategy2 syntaxError t response =
     (case indexOf (openChar t) response of
        None \<Rightarrow> Inl (str ''No opening bracket found'')
      | Some startIdx \<Rightarrow> parseOrThrow syntaxError (sanitizeJsonString (drop startIdx response)))"

definition strategy3 :: "(jsstring \<Rightarrow> jsstring) \<Rightarrow> expectedType \<Rightarrow> jsstring \<Rightarrow> jsstring + json" where
  "strategy3 syntaxError t response =
     (case (indexOf (openChar t) response, lastIndexOf (closeChar t) response) of
        (Some firstIdx, Some lastIdx) \<Rightarrow>
          if lastIdx \<le> firstIdx then Inl (str ''Invalid bracket positions'')
          else parseOrThrow syntaxError
                 (sanitizeJsonString (substring firstIdx (lastIdx + 1) response))
      | _ \<Rightarrow> Inl (str ''Invalid bracket positions''))"

text \<open>The fourth strategy. Its map of escapes is walked in insertion order, both ways; its
  class of control characters is \<open>[\x00-\x1F\x7F-\x9F]\<close>.\<close>

definition escapeMap :: "(jsstring \<times> jsstring) list" where
  "escapeMap =
     [([92, 110], str ''___NEWLINE___''),
      ([92, 114], str ''___RETURN___''),
      ([92, 116], str ''___TAB___''),
      ([92, 34], str ''___QUOTE___''),
      ([92, 92], str ''___BACKSLASH___''),
      ([92, 102], str ''___FORMFEED___''),
      ([92, 98], str ''___BACKSPACE___'')]"

definition aggressiveClean :: "jsstring \<Rightarrow> jsstring" where
  "aggressiveClean response =
     (let cleaned = trim (stripLeadingJsonBackslash (removeFences response));
          protected = foldl (\<lambda>s (escaped, placeholder). replaceAll False escaped placeholder s)
                        cleaned escapeMap;
          noControl = replaceClass (\<lambda>c. c \<le> 31 \<or> (127 \<le> c \<and> c \<le> 159)) [32] protected;
          restored = foldl (\<lambda>s (escaped, placeholder). replaceAll False placeholder escaped s)
                       noControl escapeMap
      in collapseSpaces False (smartQuotes restored))"

definition strategy4 :: "(jsstring \<Rightarrow> jsstring) \<Rightarrow> expectedType \<Rightarrow> jsstring \<Rightarrow> jsstring + json" where
  "strategy4 syntaxError t response =
     (case matchBrackets t (aggressiveClean response) of
        None \<Rightarrow> Inl (str ''No JSON after aggressive cleaning'')
      | Some m \<Rightarrow> parseOrThrow syntaxError m)"

text \<open>
  The fifth strategy gives every escape it protects a placeholder of its own,
  \<open>___PROTECTED_n___\<close>, counting up through \<open>\"\<close>, \<open>\\\<close>, \<open>\n\<close>, \<open>\r\<close>, \<open>\t\<close>, \<open>\f\<close>, \<open>\b\<close> in this
  order, and restores them in the order in which they entered its map.
\<close>

definition protectedPlaceholder :: "nat \<Rightarrow> jsstring" where
  "protectedPlaceholder n = str ''___PROTECTED_'' @ numToString n @ str ''___''"

fun protectEscape :: "nat \<Rightarrow> nat \<Rightarrow> jsstring \<Rightarrow> jsstring" where
  "protectEscape e counter (c # d # rest) =
     (if c = 92 \<and> d = e then protectedPlaceholder counter @ protectEscape e (counter + 1) rest
      else c # protectEscape e counter (d # rest))"
| "protectEscape e counter s = s"

fun countEscapes :: "nat \<Rightarrow> jsstring \<Rightarrow> nat" where
  "countEscapes e (c # d # rest) =
     (if c = 92 \<and> d = e then countEscapes e rest + 1 else countEscapes e (d # rest))"
| "countEscapes e s = 0"

definition protectStage ::
  "jsstring \<times> nat \<times> (jsstring \<times> jsstring) list \<Rightarrow> nat
     \<Rightarrow> jsstring \<times> nat \<times> (jsstring \<times> jsstring) list" where
  "protectStage state e =
     (case state of (text, counter, protectionMap) \<Rightarrow>
        (protectEscape e counter text,
         counter + countEscapes e text,
         protectionMap
           @ map (\<lambda>k. (protectedPlaceholder (counter + k), [92, e])) [0 ..< countEscapes e text]))"

definition rebuild :: "jsstring \<Rightarrow> jsstring" where
  "rebuild text =
     (case foldl protectStage (text, 0, []) [34, 92, 110, 114, 116, 102, 98] of
        (protected, counter, protectionMap) \<Rightarrow>
          (let noControl = replaceClass (\<lambda>c. c \<le> 9 \<or> (11 \<le> c \<and> c \<le> 31) \<or> (127 \<le> c \<and> c \<le> 159))
                             [32] protected;
               formatted =
                 squeeze None (Some 125) False False
                   (squeeze None (Some 93) False False
                     (squeeze (Some 91) None False False
                       (squeeze (Some 123) (Some 34) False False
                         (squeeze (Some 44) (Some 34) False False
                           (squeeze (Some 58) (Some 34) False False
                             (squeeze (Some 34) (Some 58) False False
                               (removeTrailingCommasAndSpace False
                                 (collapseSpaces False noControl))))))))
           in foldl (\<lambda>s (placeholder, original). replaceAll False placeholder original s)
                formatted protectionMap))"

definition strategy5 :: "(jsstring \<Rightarrow> jsstring) \<Rightarrow> expectedType \<Rightarrow> jsstring \<Rightarrow> jsstring + json" where
  "strategy5 syntaxError t response =
     (case (indexOf (openChar t) response, lastIndexOf (closeChar t) response) of
        (Some firstIdx, Some lastIdx) \<Rightarrow>
          parseOrThrow syntaxError (rebuild (substring firstIdx (lastIdx + 1) response))
      | _ \<Rightarrow> Inl (str ''Cannot find JSON boundaries''))"

text \<open>The sixth strategy: the \<open>for\<close> loop that counts the depth from the first opening bracket
  and stops at the index where it is back to 0.\<close>

fun balance :: "expectedType \<Rightarrow> int \<Rightarrow> nat \<Rightarrow> jsstring \<Rightarrow> nat option" where
  "balance t depth i [] = None"
| "balance t depth i (c # cs) =
     (let opened = (if c = openChar t then depth + 1 else depth);
          closed = (if c = closeChar t then opened - 1 else opened)
      in if closed = 0 then Some i else balance t closed (i + 1) cs)"

definition strategy6 :: "(jsstring \<Rightarrow> jsstring) \<Rightarrow> expectedType \<Rightarrow> jsstring \<Rightarrow> jsstring + json" where
  "strategy6 syntaxError t response =
     (case indexOf (openChar t) response of
        None \<Rightarrow> Inl (str ''No opening bracket found'')
      | Some startIdx \<Rightarrow>
          (case balance t 0 startIdx (drop startIdx response) of
             None \<Rightarrow> Inl (str ''No matching closing bracket found'')
           | Some endIdx \<Rightarrow>
               parseOrThrow syntaxError
                 (sanitizeJsonString (substring startIdx (endIdx + 1) response))))"

subsection \<open>\<open>parseJsonRobust\<close>\<close>

definition strategies ::
  "((jsstring \<Rightarrow> jsstring) \<Rightarrow> expectedType \<Rightarrow> jsstring \<Rightarrow> jsstring + json) list" where
  "strategies = [strategy1, strategy2, strategy3, strategy4, strategy5, strategy6]"

text \<open>The loop over the strategies: the first result, or the list \<open>errors\<close> when all have
  thrown.\<close>

fun tryStrategies ::
  "((jsstring \<Rightarrow> jsstring) \<Rightarrow> expectedType \<Rightarrow> jsstring \<Rightarrow> jsstring + json) list \<Rightarrow> nat
     \<Rightarrow> (jsstring \<Rightarrow> jsstring) \<Rightarrow> expectedType \<Rightarrow> jsstring \<Rightarrow> jsstring list
     \<Rightarrow> jsstring list + json" where
  "tryStrategies [] i syntaxError t response errors = Inl errors"
| "tryStrategies (strategy # others) i syntaxError t response errors =
     (case strategy syntaxError t response of
        Inr result \<Rightarrow> Inr result
      | Inl message \<Rightarrow>
          tryStrategies others (i + 1) syntaxError t response
            (errors @ [str ''Strategy '' @ numToString (i + 1) @ str '': '' @ message]))"

definition errorSummary :: "expectedType \<Rightarrow> jsstring \<Rightarrow> jsstring" where
  "errorSummary t response =
     (if includes_js response (str ''```json'') \<or> includes_js response (str ''```'')
        then str ''Response contains markdown code blocks''
      else if \<exists>c \<in> set response. c \<le> 31
        then str ''Response contains control characters''
      else if \<not> includes_js response [openChar t]
        then str ''No '' @ (case t of Array \<Rightarrow> str ''array'' | Object \<Rightarrow> str ''object'')
             @ str '' bracket found in response''
      else if includes_js (take 100 response) [92, 98] \<or> includes_js (take 100 response) [92, 102]
        then str ''Response contains invalid escape sequences''
      else str ''Malformed JSON structure'')"

definition parseJsonRobust ::
  "(jsstring \<Rightarrow> jsstring) \<Rightarrow> jsstring \<Rightarrow> expectedType \<Rightarrow> jsstring + json" where
  "parseJsonRobust syntaxError response t =
     (case tryStrategies strategies 0 syntaxError t response [] of
        Inr result \<Rightarrow> Inr result
      | Inl errors \<Rightarrow>
          Inl (str ''Failed to parse JSON after '' @ numToString (length strategies)
               @ str '' attempts. Issue: '' @ errorSummary t response
               @ str ''. First error: '' @ hd errors))"


subsection \<open>Texts and error lists of the scenarios\<close>

text \<open>The raw text of the spec's third end-to-end scenario (code unit 10 is the line feed, 34
  the double quote), the part of it between the brackets, and that part sanitized.\<close>

definition scenario3_text :: jsstring where
  "scenario3_text = str ''```json'' @ [10] @ str ''[{'' @ [34] @ str ''a'' @ [34] @ str '': '' @ [34]
     @ str ''line one'' @ [10] @ str ''line two'' @ [34] @ str ''}]'' @ [10] @ str ''```''"

definition scenario3_match :: jsstring where
  "scenario3_match = str ''[{'' @ [34] @ str ''a'' @ [34] @ str '': '' @ [34]
     @ str ''line one'' @ [10] @ str ''line two'' @ [34] @ str ''}]''"

definition scenario3_clean :: jsstring where
  "scenario3_clean = str ''[{'' @ [34] @ str ''a'' @ [34] @ str '': '' @ [34]
     @ str ''line one line two'' @ [34] @ str ''}]''"

text \<open>What the six strategies throw, in order, on a text without an opening bracket of the
  expected type.\<close>

definition noBracketErrors :: "jsstring list" where
  "noBracketErrors =
     [str ''Strategy 1: No JSON found in response'',
      str ''Strategy 2: No opening bracket found'',
      str ''Strategy 3: Invalid bracket positions'',
      str ''Strategy 4: No JSON after aggressive cleaning'',
      str ''Strategy 5: Cannot find JSON boundaries'',
      str ''Strategy 6: No opening bracket found'']"

definition bracket :: "nat \<Rightarrow> bool" where
  "bracket x \<longleftrightarrow> x = 91 \<or> x = 123"


section \<open>Properties of the credential pool\<close>

lemma str_eq_Nil [simp]: "str s = [] \<longleftrightarrow> s = []"
  by (simp add: str_def)

lemma str_inject [simp]: "str a = str b \<longleftrightarrow> a = b"
  unfolding str_def
  by (rule inj_map_eq_map) (rule injI, metis char_of_char)

lemma mod_below: "c < n \<Longrightarrow> x mod n < (n::nat)"
  by (intro mod_less_divisor) auto

lemma scan_Hit: "scan states c a = Hit i \<Longrightarrow> i < length states \<and> isActive (states ! i)"
proof (induction states c a rule: scan.induct)
  case (1 states c a)
  then show ?case
    by (subst (asm) (2) scan.simps) (auto split: if_splits)
qed

lemma scan_no_Crash: "c < length states \<Longrightarrow> scan states c a \<noteq> Crash"
proof (induction states c a rule: scan.induct)
  case (1 states c a)
  have "(c + 1) mod length states < length states"
    using 1(2) by (intro mod_less_divisor) auto
  then show ?case using 1
    by (subst scan.simps) auto
qed

lemma scan_all_inactive:
  "\<forall>s \<in> set states. \<not> isActive s \<Longrightarrow> c < length states \<Longrightarrow> scan states c a = Miss"
proof (induction states c a rule: scan.induct)
  case (1 states c a)
  have "(c + 1) mod length states < length states"
    using 1(3) by (intro mod_less_divisor) auto
  then show ?case using 1
    by (subst scan.simps) auto
qed

lemma scan_active_here:
  "c < length states \<Longrightarrow> isActive (states ! c) \<Longrightarrow> scan states c 0 = Hit c"
  by (subst scan.simps) auto

lemma strikes_ok_nth:
  "strikes_ok states \<longleftrightarrow> (\<forall>i < length states. errorCount (states ! i) \<ge> 3 \<longrightarrow> \<not> isActive (states ! i))"
  unfolding strikes_ok_def by (metis in_set_conv_nth)

lemma strikes_ok_select: "strikes_ok states \<Longrightarrow> strikes_ok (select now i states)"
  unfolding strikes_ok_nth select_def
  by (cases "i < length states") (auto simp: nth_list_update split: if_splits)

lemma strikes_ok_resetAll: "strikes_ok (resetAll states)"
  by (auto simp: strikes_ok_def resetAll_def)

lemma length_select [simp]: "length (select now i states) = length states"
  by (simp add: select_def)

lemma length_resetAll [simp]: "length (resetAll states) = length states"
  by (simp add: resetAll_def)

lemma getNext_strikes_ok:
  "strikes_ok (API_KEY_STATES m) \<Longrightarrow> strikes_ok (API_KEY_STATES (snd (getNextGeminiKey now m)))"
proof (induction now m rule: getNextGeminiKey.induct)
  case (1 now m)
  show ?case
  proof (cases "API_KEY_STATES m = []")
    case True
    then show ?thesis using 1(2)
      by (subst getNextGeminiKey.simps) simp
  next
    case False
    show ?thesis
    proof (cases "scan (API_KEY_STATES m) (currentKeyIndex m) 0")
      case (Hit i)
      then show ?thesis using 1(2) False
        by (subst getNextGeminiKey.simps) (simp add: strikes_ok_select)
    next
      case Miss
      then show ?thesis using 1 False
        by (subst getNextGeminiKey.simps) (simp add: strikes_ok_resetAll)
    next
      case Crash
      then show ?thesis using 1(2) False
        by (subst getNextGeminiKey.simps) simp
    qed
  qed
qed

lemma getNext_cursor_ok: "cursor_ok m \<Longrightarrow> cursor_ok (snd (getNextGeminiKey now m))"
proof (induction now m rule: getNextGeminiKey.induct)
  case (1 now m)
  show ?case
  proof (cases "API_KEY_STATES m = []")
    case True
    then show ?thesis using 1(2)
      by (subst getNextGeminiKey.simps) simp
  next
    case False
    show ?thesis
    proof (cases "scan (API_KEY_STATES m) (currentKeyIndex m) 0")
      case (Hit i)
      then show ?thesis using 1(2) False
        by (subst getNextGeminiKey.simps) (auto simp: cursor_ok_def)
    next
      case Miss
      have "cursor_ok (m\<lparr>API_KEY_STATES := resetAll (API_KEY_STATES m)\<rparr>)"
        using 1(2) by (auto simp: cursor_ok_def resetAll_def)
      then show ?thesis using 1(1) Miss False
        by (subst getNextGeminiKey.simps) simp
    next
      case Crash
      then show ?thesis using 1(2) False
        by (subst getNextGeminiKey.simps) simp
    qed
  qed
qed

lemma markKeyError_strikes_ok:
  "strikes_ok (API_KEY_STATES m) \<Longrightarrow> strikes_ok (API_KEY_STATES (markKeyError k e m))"
  unfolding strikes_ok_nth markKeyError_def Let_def
  by (auto simp: nth_list_update split: if_splits)

lemma markKeySuccess_strikes_ok:
  "strikes_ok (API_KEY_STATES m) \<Longrightarrow> strikes_ok (API_KEY_STATES (markKeySuccess k m))"
  unfolding strikes_ok_nth markKeySuccess_def
  by (auto simp: nth_list_update split: if_splits)

lemma setKeys_strikes_ok:
  "strikes_ok (API_KEY_STATES m) \<Longrightarrow> strikes_ok (API_KEY_STATES (snd (setGeminiApiKeys ks m)))"
  by (auto simp: strikes_ok_def setGeminiApiKeys_def Let_def freshKey_def)

lemma markKeyError_cursor_ok: "cursor_ok m \<Longrightarrow> cursor_ok (markKeyError k e m)"
  by (auto simp: cursor_ok_def markKeyError_def Let_def)

lemma markKeySuccess_cursor_ok: "cursor_ok m \<Longrightarrow> cursor_ok (markKeySuccess k m)"
  by (auto simp: cursor_ok_def markKeySuccess_def)

lemma setKeys_cursor_ok: "cursor_ok m \<Longrightarrow> cursor_ok (snd (setGeminiApiKeys ks m))"
  by (auto simp: cursor_ok_def setGeminiApiKeys_def Let_def)

lemma apply_operation_strikes_ok:
  "strikes_ok (API_KEY_STATES m) \<Longrightarrow> strikes_ok (API_KEY_STATES (apply_operation m x))"
  by (cases x)
    (simp_all add: getNext_strikes_ok markKeyError_strikes_ok markKeySuccess_strikes_ok
      setKeys_strikes_ok)

lemma apply_operation_cursor_ok: "cursor_ok m \<Longrightarrow> cursor_ok (apply_operation m x)"
  by (cases x)
    (simp_all add: getNext_cursor_ok markKeyError_cursor_ok markKeySuccess_cursor_ok
      setKeys_cursor_ok)

lemma run_strikes_ok:
  "strikes_ok (API_KEY_STATES m) \<Longrightarrow> strikes_ok (API_KEY_STATES (run ops m))"
  unfolding run_def by (induction ops arbitrary: m) (simp_all add: apply_operation_strikes_ok)

lemma run_cursor_ok: "cursor_ok m \<Longrightarrow> cursor_ok (run ops m)"
  unfolding run_def by (induction ops arbitrary: m) (simp_all add: apply_operation_cursor_ok)

lemma initial_ok: "strikes_ok (API_KEY_STATES initial)" "cursor_ok initial"
  by (simp_all add: strikes_ok_def cursor_ok_def initial_def)

lemma markKeyError_effect:
  assumes "0 \<le> k" "k < int (length (API_KEY_STATES m))"
  shows "errorCount (API_KEY_STATES (markKeyError k msg m) ! nat k) = errorCount (API_KEY_STATES m ! nat k) + 1"
    and "lastError (API_KEY_STATES (markKeyError k msg m) ! nat k) = Some msg"
    and "isActive (API_KEY_STATES (markKeyError k msg m) ! nat k) =
          (if errorCount (API_KEY_STATES m ! nat k) + 1 \<ge> 3 then False else isActive (API_KEY_STATES m ! nat k))"
  using assms by (simp_all add: markKeyError_def Let_def)

lemma markKeySuccess_effect:
  assumes "0 \<le> k" "k < int (length (API_KEY_STATES m))"
  shows "errorCount (API_KEY_STATES (markKeySuccess k m) ! nat k) = 0"
    and "lastError (API_KEY_STATES (markKeySuccess k m) ! nat k) = None"
  using assms by (simp_all add: markKeySuccess_def)

lemma getNext_active:
  assumes "currentKeyIndex m < length (API_KEY_STATES m)"
    and "isActive (API_KEY_STATES m ! currentKeyIndex m)"
  shows "getNextGeminiKey now m =
    (Inr (key (API_KEY_STATES m ! currentKeyIndex m), currentKeyIndex m),
     m\<lparr>API_KEY_STATES := select now (currentKeyIndex m) (API_KEY_STATES m),
       currentKeyIndex := (currentKeyIndex m + 1) mod length (API_KEY_STATES m)\<rparr>)"
proof -
  have "scan (API_KEY_STATES m) (currentKeyIndex m) 0 = Hit (currentKeyIndex m)"
    using assms by (rule scan_active_here)
  moreover have "length (API_KEY_STATES m) \<noteq> 0"
    using assms(1) by auto
  ultimately show ?thesis
    by (subst getNextGeminiKey.simps) simp
qed

lemma getNext_all_inactive:
  assumes "currentKeyIndex m < length (API_KEY_STATES m)"
    and "\<forall>s \<in> set (API_KEY_STATES m). \<not> isActive s"
  shows "getNextGeminiKey now m =
    getNextGeminiKey now (m\<lparr>API_KEY_STATES := resetAll (API_KEY_STATES m)\<rparr>)"
proof -
  have "scan (API_KEY_STATES m) (currentKeyIndex m) 0 = Miss"
    using assms by (simp add: scan_all_inactive)
  moreover have "length (API_KEY_STATES m) \<noteq> 0"
    using assms(1) by auto
  ultimately show ?thesis
    by (subst getNextGeminiKey.simps) simp
qed


lemma resetAll_all_active: "\<forall>s \<in> set (resetAll states). isActive s \<and> errorCount s = 0"
  by (simp add: resetAll_def)

lemma resetAll_nth: "i < length states \<Longrightarrow> resetAll states ! i = (states ! i)\<lparr>isActive := True, errorCount := 0\<rparr>"
  by (simp add: resetAll_def)

lemma resetAll_frame:
  "map key (resetAll states) = map key states"
  "map usageCount (resetAll states) = map usageCount states"
  "map lastError (resetAll states) = map lastError states"
  "map lastUsedAt (resetAll states) = map lastUsedAt states"
  by (simp_all add: resetAll_def)

lemma map_select:
  assumes "\<And>s u t. f (s\<lparr>usageCount := u, lastUsedAt := t\<rparr>) = f s"
  shows "map f (select now i states) = map f states"
proof (cases "i < length states")
  case True
  then show ?thesis
    by (simp add: select_def map_update list_update_same_conv assms)
next
  case False
  then have "length states \<le> i"
    by simp
  then show ?thesis
    by (simp add: select_def list_update_beyond)
qed

lemma select_frame:
  "map key (select now i states) = map key states"
  "map errorCount (select now i states) = map errorCount states"
  "map lastError (select now i states) = map lastError states"
  "map isActive (select now i states) = map isActive states"
  by (rule map_select, simp)+

lemma select_all_active:
  "\<forall>s \<in> set states. P (isActive s) (errorCount s) \<Longrightarrow>
   \<forall>s \<in> set (select now i states). P (isActive s) (errorCount s)"
proof -
  assume a: "\<forall>s \<in> set states. P (isActive s) (errorCount s)"
  have "\<forall>j < length (select now i states). P (isActive (select now i states ! j)) (errorCount (select now i states ! j))"
    using a by (cases "i < length states") (auto simp: select_def nth_list_update)
  then show ?thesis
    by (metis in_set_conv_nth)
qed

lemma getNext_exhausted:
  assumes "currentKeyIndex m < length (API_KEY_STATES m)"
    and "\<forall>s \<in> set (API_KEY_STATES m). \<not> isActive s"
  shows "getNextGeminiKey now m =
    (Inr (key (API_KEY_STATES m ! currentKeyIndex m), currentKeyIndex m),
     m\<lparr>API_KEY_STATES := select now (currentKeyIndex m) (resetAll (API_KEY_STATES m)),
       currentKeyIndex := (currentKeyIndex m + 1) mod length (API_KEY_STATES m)\<rparr>)"
proof -
  let ?r = "m\<lparr>API_KEY_STATES := resetAll (API_KEY_STATES m)\<rparr>"
  have "getNextGeminiKey now m = getNextGeminiKey now ?r"
    using assms by (rule getNext_all_inactive)
  also have "\<dots> = (Inr (key (API_KEY_STATES ?r ! currentKeyIndex ?r), currentKeyIndex ?r),
     ?r\<lparr>API_KEY_STATES := select now (currentKeyIndex ?r) (API_KEY_STATES ?r),
       currentKeyIndex := (currentKeyIndex ?r + 1) mod length (API_KEY_STATES ?r)\<rparr>)"
    by (rule getNext_active) (use assms(1) in \<open>simp_all add: resetAll_nth\<close>)
  finally show ?thesis
    using assms(1) by (simp add: resetAll_nth)
qed

lemma stats_lastError: "map stat_lastError (getApiKeyStats fmt m) = map lastError (API_KEY_STATES m)"
proof -
  have "map stat_lastError (getApiKeyStats fmt m)
      = map (lastError \<circ> fst) (zip (API_KEY_STATES m) [0 ..< length (API_KEY_STATES m)])"
    by (simp add: getApiKeyStats_def o_def split_def)
  also have "\<dots> = map lastError (API_KEY_STATES m)"
    by (simp add: map_map [symmetric] del: map_map)
  finally show ?thesis .
qed

lemma count_list_upt: "count_list [0 ..< n] j = (if j < n then 1 else 0)"
  by (induction n) auto

lemma count_list_cycle:
  assumes "j < N"
  shows "count_list (map (\<lambda>i. i mod N) [0 ..< c * N]) j = c"
proof (induction c)
  case 0
  show ?case by simp
next
  case (Suc c)
  have "[0 ..< Suc c * N] = [0 ..< c * N] @ [c * N ..< c * N + N]"
    using upt_add_eq_append [of 0 "c * N" N] by (simp add: add.commute)
  moreover have "map (\<lambda>i. i mod N) [c * N ..< c * N + N] = [0 ..< N]"
  proof -
    have "[c * N ..< c * N + N] = map (\<lambda>i. i + c * N) [0 ..< N]"
      by (simp add: map_add_upt add.commute)
    then have "map (\<lambda>i. i mod N) [c * N ..< c * N + N] = map (\<lambda>i. (i + c * N) mod N) [0 ..< N]"
      by (simp add: o_def)
    also have "\<dots> = map (\<lambda>i. i) [0 ..< N]"
      by (rule map_cong) simp_all
    finally show ?thesis by simp
  qed
  ultimately show ?case
    using Suc assms by (simp add: count_list_upt)
qed

lemma select_nth:
  "j < length states \<Longrightarrow>
   select now i states ! j =
     (if j = i then (states ! i)\<lparr>usageCount := usageCount (states ! i) + 1, lastUsedAt := Some now\<rparr>
      else states ! j)"
  by (auto simp: select_def)

lemma selections_round_robin:
  assumes "\<forall>s \<in> set (API_KEY_STATES m). isActive s"
    and "currentKeyIndex m < length (API_KEY_STATES m)"
  shows "round_robin m ts"
  using assms
proof (induction ts arbitrary: m)
  case Nil
  then show ?case
    by (simp add: round_robin_def)
next
  case (Cons now ts)
  let ?N = "length (API_KEY_STATES m)"
  let ?c = "currentKeyIndex m"
  let ?m1 = "m\<lparr>API_KEY_STATES := select now ?c (API_KEY_STATES m),
                currentKeyIndex := (?c + 1) mod ?N\<rparr>"
  have act: "isActive (API_KEY_STATES m ! ?c)"
    using Cons.prems by simp
  have step: "getNextGeminiKey now m = (Inr (key (API_KEY_STATES m ! ?c), ?c), ?m1)"
    using getNext_active [OF Cons.prems(2) act, of now] .
  have a1: "\<forall>s \<in> set (API_KEY_STATES ?m1). isActive s"
    using select_all_active [where P = "\<lambda>a e. a", OF Cons.prems(1), of now ?c] by simp
  have c1: "currentKeyIndex ?m1 < length (API_KEY_STATES ?m1)"
    using Cons.prems(2) by (simp add: mod_below)
  have ih: "round_robin ?m1 ts"
    using a1 c1 by (rule Cons.IH)
  have idx: "(Suc ?c mod ?N + i) mod ?N = Suc (?c + i) mod ?N" for i
    by (metis mod_add_left_eq add_Suc)
  have keys: "key (select now ?c (API_KEY_STATES m) ! j) = key (API_KEY_STATES m ! j)" if "j < ?N" for j
    using that by (simp add: select_nth)
  have "i mod ?N < ?N" for i
    using Cons.prems(2) by (rule mod_below)
  note lt = this
  have sel: "selections (now # ts) m
      = (Inr (key (API_KEY_STATES m ! ?c), ?c) # fst (selections ts ?m1), snd (selections ts ?m1))"
    by (simp add: step split_def Let_def)
  have c0: "(?c + 0) mod ?N = ?c"
    using Cons.prems(2) by simp
  show ?case
    unfolding round_robin_def Let_def sel fst_conv snd_conv
  proof (intro conjI allI impI)
    show "Inr (key (API_KEY_STATES m ! ?c), ?c) # fst (selections ts ?m1) =
      map (\<lambda>i. Inr (key (API_KEY_STATES m ! ((?c + i) mod ?N)), (?c + i) mod ?N)) [0..<length (now # ts)]"
      using ih c0 unfolding round_robin_def Let_def
      by (simp add: map_upt_Suc idx keys lt del: upt_Suc)
    show "currentKeyIndex (snd (selections ts ?m1)) = (?c + length (now # ts)) mod ?N"
      using ih unfolding round_robin_def Let_def by (simp add: idx [of "length ts"])
    show "length (API_KEY_STATES (snd (selections ts ?m1))) = ?N"
      using ih unfolding round_robin_def Let_def by simp
    show "\<forall>s \<in> set (API_KEY_STATES (snd (selections ts ?m1))). isActive s"
      using ih unfolding round_robin_def Let_def by simp
    show "map key (API_KEY_STATES (snd (selections ts ?m1))) = map key (API_KEY_STATES m)"
      using ih unfolding round_robin_def Let_def by (simp add: select_frame)
    fix j assume j: "j < ?N"
    have "usageCount (API_KEY_STATES (snd (selections ts ?m1)) ! j)
        = usageCount (API_KEY_STATES ?m1 ! j)
          + count_list (map (\<lambda>i. (?c + Suc i) mod ?N) [0 ..< length ts]) j"
      using ih j unfolding round_robin_def Let_def by (simp add: idx)
    moreover have "usageCount (API_KEY_STATES ?m1 ! j)
        = usageCount (API_KEY_STATES m ! j) + (if ?c = j then 1 else 0)"
      using j by (simp add: select_nth)
    ultimately show "usageCount (API_KEY_STATES (snd (selections ts ?m1)) ! j)
        = usageCount (API_KEY_STATES m ! j)
          + count_list (map (\<lambda>i. (?c + i) mod ?N) [0 ..< length (now # ts)]) j"
      using c0 by (simp add: map_upt_Suc del: upt_Suc)
  qed
qed

lemma selections_snoc:
  "selections (ts @ [now]) m =
     (fst (selections ts m) @ [fst (getNextGeminiKey now (snd (selections ts m)))],
      snd (getNextGeminiKey now (snd (selections ts m))))"
  by (induction ts arbitrary: m) (simp_all add: split_def Let_def)

lemma setKeys_fresh:
  assumes "setGeminiApiKeys keys m0 = (Inr (), m)"
  shows "API_KEY_STATES m = map freshKey (filter (\<lambda>k. trim k \<noteq> []) keys)"
    and "currentKeyIndex m = 0"
    and "API_KEY_STATES m \<noteq> []"
    and "\<forall>s \<in> set (API_KEY_STATES m). isActive s \<and> usageCount s = 0"
  using assms by (auto simp: setGeminiApiKeys_def Let_def freshKey_def split: if_splits)


subsection \<open>A pool with one credential, struck three times\<close>

lemma trim_k1: "trim (str ''k1'') = str ''k1''"
  by (simp add: trim_def str_def isSpace_def)

lemma run_struck_ops:
  "run struck_ops initial =
     \<lparr>API_KEY_STATES = [\<lparr>key = str ''k1'', usageCount = 0, errorCount = 3,
        lastError = Some (JString (str ''e3'')), lastUsedAt = None, isActive = False\<rparr>],
      currentKeyIndex = 0\<rparr>"
  by (simp add: struck_ops_def run_def initial_def setGeminiApiKeys_def trim_k1 Let_def
      freshKey_def markKeyError_def)

subsection \<open>The claims about the pool\<close>

text \<open>
  C1. Whatever sequence of \<open>setGeminiApiKeys\<close>, \<open>getNextGeminiKey\<close>, \<open>markKeyError\<close> and
  \<open>markKeySuccess\<close> has run since the module was loaded, every credential with
  \<open>errorCount \<ge> 3\<close> is inactive. On a valid index, \<open>markKeyError\<close> adds one to that entry's
  \<open>errorCount\<close>, stores the message as \<open>lastError\<close> and leaves the entry inactive when the
  new count is at least 3; \<open>markKeySuccess\<close> sets its \<open>errorCount\<close> to 0 and its
  \<open>lastError\<close> to \<open>null\<close>.
\<close>

theorem C1_three_strikes_invariant:
  "(\<forall>s \<in> set (API_KEY_STATES (run ops initial)). errorCount s \<ge> 3 \<longrightarrow> isActive s = False)
   \<and> (0 \<le> k \<and> k < int (length (API_KEY_STATES m)) \<longrightarrow>
        errorCount (API_KEY_STATES (markKeyError k msg m) ! nat k)
          = errorCount (API_KEY_STATES m ! nat k) + 1
        \<and> lastError (API_KEY_STATES (markKeyError k msg m) ! nat k) = Some msg
        \<and> (errorCount (API_KEY_STATES (markKeyError k msg m) ! nat k) \<ge> 3
             \<longrightarrow> isActive (API_KEY_STATES (markKeyError k msg m) ! nat k) = False)
        \<and> errorCount (API_KEY_STATES (markKeySuccess k m) ! nat k) = 0
        \<and> lastError (API_KEY_STATES (markKeySuccess k m) ! nat k) = None)"
proof -
  have "strikes_ok (API_KEY_STATES (run ops initial))"
    by (rule run_strikes_ok) (rule initial_ok)
  then have inv: "\<forall>s \<in> set (API_KEY_STATES (run ops initial)). errorCount s \<ge> 3 \<longrightarrow> isActive s = False"
    by (simp add: strikes_ok_def)
  show ?thesis
    using inv by (simp add: markKeyError_effect markKeySuccess_effect)
qed


theorem C1_three_strikes_invariant_witness:
  "(\<exists>s \<in> set (API_KEY_STATES (run struck_ops initial)). errorCount s \<ge> 3 \<and> isActive s = False)
   \<and> (0::int) \<le> 0 \<and> (0::int) < int (length (API_KEY_STATES (run struck_ops initial)))
   \<and> errorCount (API_KEY_STATES (markKeyError 0 (JString (str ''e4'')) (run struck_ops initial)) ! nat 0) = 4
   \<and> lastError (API_KEY_STATES (markKeyError 0 (JString (str ''e4'')) (run struck_ops initial)) ! nat 0)
        = Some (JString (str ''e4''))
   \<and> isActive (API_KEY_STATES (markKeyError 0 (JString (str ''e4'')) (run struck_ops initial)) ! nat 0) = False
   \<and> errorCount (API_KEY_STATES (markKeySuccess 0 (run struck_ops initial)) ! nat 0) = 0
   \<and> lastError (API_KEY_STATES (markKeySuccess 0 (run struck_ops initial)) ! nat 0) = None"
  using C1_three_strikes_invariant [of struck_ops 0 "run struck_ops initial" "JString (str ''e4'')"]
  by (simp add: run_struck_ops)

text \<open>
  C2. In a state reached from the module's initial state in which the pool is not empty and
  every credential is inactive, \<open>getNextGeminiKey\<close> does not throw: it returns the credential
  under the cursor, out of the pool that \<open>resetAll\<close> made (every \<open>isActive\<close> true, every
  \<open>errorCount\<close> 0), and every credential is active afterwards.
\<close>

theorem C2_pool_exhaustion_amnesty:
  assumes "m = run ops initial"
    and "API_KEY_STATES m \<noteq> []"
    and "\<forall>s \<in> set (API_KEY_STATES m). isActive s = False"
  shows "getNextGeminiKey now m =
      (Inr (key (API_KEY_STATES m ! currentKeyIndex m), currentKeyIndex m),
       m\<lparr>API_KEY_STATES := select now (currentKeyIndex m) (resetAll (API_KEY_STATES m)),
         currentKeyIndex := (currentKeyIndex m + 1) mod length (API_KEY_STATES m)\<rparr>)
    \<and> (\<forall>s \<in> set (resetAll (API_KEY_STATES m)). isActive s = True \<and> errorCount s = 0)
    \<and> (\<forall>s \<in> set (API_KEY_STATES (snd (getNextGeminiKey now m))). isActive s = True)"
proof -
  have "cursor_ok m"
    unfolding assms(1) by (rule run_cursor_ok) (rule initial_ok)
  then have c: "currentKeyIndex m < length (API_KEY_STATES m)"
    using assms(2) by (simp add: cursor_ok_def)
  have i: "\<forall>s \<in> set (API_KEY_STATES m). \<not> isActive s"
    using assms(3) by simp
  note eq = getNext_exhausted [OF c i, of now]
  have "\<forall>s \<in> set (resetAll (API_KEY_STATES m)). isActive s = True"
    by (simp add: resetAll_def)
  then have "\<forall>s \<in> set (select now (currentKeyIndex m) (resetAll (API_KEY_STATES m))). isActive s = True"
    by (rule select_all_active [where P = "\<lambda>a e. a = True"])
  then show ?thesis
    using eq resetAll_all_active [of "API_KEY_STATES m"] by simp
qed

theorem C2_pool_exhaustion_amnesty_witness:
  "API_KEY_STATES (run struck_ops initial) \<noteq> []
   \<and> map isActive (API_KEY_STATES (run struck_ops initial)) = [False]
   \<and> fst (getNextGeminiKey 7 (run struck_ops initial)) = Inr (str ''k1'', 0)
   \<and> map isActive (API_KEY_STATES (snd (getNextGeminiKey 7 (run struck_ops initial)))) = [True]
   \<and> map errorCount (API_KEY_STATES (snd (getNextGeminiKey 7 (run struck_ops initial)))) = [0]"
  using C2_pool_exhaustion_amnesty [OF refl, of struck_ops 7]
  by (simp add: run_struck_ops select_def resetAll_def)

text \<open>
  C10. The reset that \<open>getNextGeminiKey\<close> performs on an exhausted pool changes \<open>isActive\<close> and
  \<open>errorCount\<close> only: the keys, usage counts, last errors and last-use times of all entries
  are as before. When every credential of a reachable, non-empty pool is inactive, the call
  is the call on the reset pool, and the \<open>lastError\<close> column of \<open>getApiKeyStats\<close> after it is
  the one from before it.
\<close>

theorem C10_reset_frame:
  "map key (resetAll states) = map key states
   \<and> map usageCount (resetAll states) = map usageCount states
   \<and> map lastError (resetAll states) = map lastError states
   \<and> map lastUsedAt (resetAll states) = map lastUsedAt states
   \<and> (m = run ops initial \<and> API_KEY_STATES m \<noteq> [] \<and> (\<forall>s \<in> set (API_KEY_STATES m). isActive s = False)
        \<longrightarrow> getNextGeminiKey now m
              = getNextGeminiKey now (m\<lparr>API_KEY_STATES := resetAll (API_KEY_STATES m)\<rparr>)
          \<and> map stat_lastError (getApiKeyStats fmt (snd (getNextGeminiKey now m)))
              = map lastError (API_KEY_STATES m)
          \<and> map key (API_KEY_STATES (snd (getNextGeminiKey now m))) = map key (API_KEY_STATES m))"
proof -
  have "getNextGeminiKey now m
          = getNextGeminiKey now (m\<lparr>API_KEY_STATES := resetAll (API_KEY_STATES m)\<rparr>)
        \<and> map stat_lastError (getApiKeyStats fmt (snd (getNextGeminiKey now m)))
          = map lastError (API_KEY_STATES m)
        \<and> map key (API_KEY_STATES (snd (getNextGeminiKey now m))) = map key (API_KEY_STATES m)"
    if r: "m = run ops initial" and ne: "API_KEY_STATES m \<noteq> []"
      and off: "\<forall>s \<in> set (API_KEY_STATES m). isActive s = False"
  proof -
    have "cursor_ok m"
      unfolding r by (rule run_cursor_ok) (rule initial_ok)
    then have c: "currentKeyIndex m < length (API_KEY_STATES m)"
      using ne by (simp add: cursor_ok_def)
    have i: "\<forall>s \<in> set (API_KEY_STATES m). \<not> isActive s"
      using off by simp
    have "map lastError (API_KEY_STATES (snd (getNextGeminiKey now m))) = map lastError (API_KEY_STATES m)"
      and "map key (API_KEY_STATES (snd (getNextGeminiKey now m))) = map key (API_KEY_STATES m)"
      unfolding getNext_exhausted [OF c i, of now]
      by (simp_all add: select_frame resetAll_frame)
    then show ?thesis
      using getNext_all_inactive [OF c i, of now]
      by (simp add: stats_lastError)
  qed
  then show ?thesis
    using resetAll_frame [of states] by blast
qed

theorem C10_reset_frame_witness:
  "API_KEY_STATES (run struck_ops initial) \<noteq> []
   \<and> map isActive (API_KEY_STATES (run struck_ops initial)) = [False]
   \<and> map stat_lastError (getApiKeyStats (\<lambda>t. str ''then'') (snd (getNextGeminiKey 7 (run struck_ops initial))))
        = [Some (JString (str ''e3''))]
   \<and> map key (API_KEY_STATES (snd (getNextGeminiKey 7 (run struck_ops initial)))) = [str ''k1'']"
proof -
  have hyp: "run struck_ops initial = run struck_ops initial
      \<and> API_KEY_STATES (run struck_ops initial) \<noteq> []
      \<and> (\<forall>s \<in> set (API_KEY_STATES (run struck_ops initial)). isActive s = False)"
    by (simp add: run_struck_ops)
  with C10_reset_frame [of "API_KEY_STATES (run struck_ops initial)" "run struck_ops initial"
      struck_ops 7 "\<lambda>t. str ''then''"]
  have "map stat_lastError (getApiKeyStats (\<lambda>t. str ''then'') (snd (getNextGeminiKey 7 (run struck_ops initial))))
          = map lastError (API_KEY_STATES (run struck_ops initial))"
    and "map key (API_KEY_STATES (snd (getNextGeminiKey 7 (run struck_ops initial))))
          = map key (API_KEY_STATES (run struck_ops initial))"
    by blast+
  then show ?thesis
    using hyp by (simp add: run_struck_ops)
qed

text \<open>
  C3. After \<open>setGeminiApiKeys\<close> has configured \<open>N\<close> credentials, \<open>c * N\<close> selections in a row
  return the credentials in cyclic order from the first one, each index exactly \<open>c\<close> times;
  every usage count ends at \<open>c\<close>; and the \<open>i\<close>-th selection adds one to the usage count of
  entry \<open>i mod N\<close>, stamps it with that call's clock reading and moves the cursor to the entry
  after it, modulo \<open>N\<close>.
\<close>

theorem C3_rotation_fairness:
  assumes "setGeminiApiKeys keys m0 = (Inr (), m)"
    and "N = length (API_KEY_STATES m)"
    and "length ts = c * N"
  shows "API_KEY_STATES m = map freshKey (filter (\<lambda>k. trim k \<noteq> []) keys)
    \<and> currentKeyIndex m = 0
    \<and> fst (selections ts m)
        = map (\<lambda>i. Inr (key (API_KEY_STATES m ! (i mod N)), i mod N)) [0 ..< c * N]
    \<and> (\<forall>j < N. count_list (map selectedIndex (fst (selections ts m))) (Some j) = c)
    \<and> (\<forall>j < N. usageCount (API_KEY_STATES (snd (selections ts m)) ! j) = c)
    \<and> (\<forall>i < c * N.
         (let before = snd (selections (take i ts) m);
              after = snd (selections (take (Suc i) ts) m)
          in getNextGeminiKey (ts ! i) before
               = (Inr (key (API_KEY_STATES m ! (i mod N)), i mod N), after)
           \<and> usageCount (API_KEY_STATES after ! (i mod N))
               = usageCount (API_KEY_STATES before ! (i mod N)) + 1
           \<and> lastUsedAt (API_KEY_STATES after ! (i mod N)) = Some (ts ! i)
           \<and> currentKeyIndex after = (i mod N + 1) mod N))"
proof -
  note fresh = setKeys_fresh [OF assms(1)]
  have act: "\<forall>s \<in> set (API_KEY_STATES m). isActive s"
    using fresh(4) by simp
  have cur: "currentKeyIndex m < length (API_KEY_STATES m)"
    using fresh(2,3) by simp
  have Npos: "0 < N"
    using fresh(3) assms(2) by simp
  have rr: "round_robin m us" for us
    using act cur by (rule selections_round_robin)
  have res: "fst (selections ts m)
      = map (\<lambda>i. Inr (key (API_KEY_STATES m ! (i mod N)), i mod N)) [0 ..< c * N]"
    using rr [of ts] unfolding round_robin_def Let_def
    by (simp add: fresh(2) assms(2,3))
  have cnt: "count_list (map selectedIndex (fst (selections ts m))) (Some j) = c" if "j < N" for j
  proof -
    have "map selectedIndex (fst (selections ts m)) = map Some (map (\<lambda>i. i mod N) [0 ..< c * N])"
      unfolding res by (simp add: o_def)
    then show ?thesis
      using count_list_cycle [OF that, of c] by (simp add: count_list_map_conv del: map_map)
  qed
  have use: "usageCount (API_KEY_STATES (snd (selections ts m)) ! j) = c" if "j < N" for j
  proof -
    have "usageCount (API_KEY_STATES m ! j) = 0"
      using fresh(4) that assms(2) by simp
    then show ?thesis
      using rr [of ts] that count_list_cycle [OF that, of c]
      unfolding round_robin_def Let_def
      by (simp add: fresh(2) assms(2,3))
  qed
  have step: "getNextGeminiKey (ts ! i) (snd (selections (take i ts) m))
        = (Inr (key (API_KEY_STATES m ! (i mod N)), i mod N), snd (selections (take (Suc i) ts) m))
      \<and> usageCount (API_KEY_STATES (snd (selections (take (Suc i) ts) m)) ! (i mod N))
        = usageCount (API_KEY_STATES (snd (selections (take i ts) m)) ! (i mod N)) + 1
      \<and> lastUsedAt (API_KEY_STATES (snd (selections (take (Suc i) ts) m)) ! (i mod N)) = Some (ts ! i)
      \<and> currentKeyIndex (snd (selections (take (Suc i) ts) m)) = (i mod N + 1) mod N"
    if i: "i < c * N" for i
  proof -
    let ?b = "snd (selections (take i ts) m)"
    have len: "length (take i ts) = i"
      using i assms(3) by simp
    have mn: "min (length ts) i = i"
      using i assms(3) by simp
    have b: "currentKeyIndex ?b = i mod N" "length (API_KEY_STATES ?b) = N"
      "\<forall>s \<in> set (API_KEY_STATES ?b). isActive s"
      "map key (API_KEY_STATES ?b) = map key (API_KEY_STATES m)"
      using rr [of "take i ts"] unfolding round_robin_def Let_def
      by (simp_all add: mn fresh(2) assms(2))
    have lt: "i mod N < N"
      using Npos by simp
    have keyb: "key (API_KEY_STATES ?b ! (i mod N)) = key (API_KEY_STATES m ! (i mod N))"
      using b(2,4) lt assms(2) by (metis nth_map)
    have cb: "currentKeyIndex ?b < length (API_KEY_STATES ?b)"
      using b lt by simp
    have ab: "isActive (API_KEY_STATES ?b ! currentKeyIndex ?b)"
      using b cb by simp
    have tk: "take (Suc i) ts = take i ts @ [ts ! i]"
      using i assms(3) by (simp add: take_Suc_conv_app_nth)
    show ?thesis
      unfolding tk selections_snoc snd_conv
      using getNext_active [OF cb ab, of "ts ! i"] lt
      by (simp add: b keyb select_nth)
  qed
  show ?thesis
    using fresh(1,2) res cnt use step by (simp add: Let_def)
qed

lemma trim_blank: "trim (str '' '') = []"
  by (simp add: trim_def str_def isSpace_def)

lemma trim_k2: "trim (str '' k2 '') = str ''k2''"
  by (simp add: trim_def str_def isSpace_def)

lemma setKeys_two:
  "setGeminiApiKeys [str ''k1'', str '' '', str '' k2 ''] initial =
     (Inr (), \<lparr>API_KEY_STATES = [freshKey (str ''k1''), freshKey (str '' k2 '')],
               currentKeyIndex = 0\<rparr>)"
  by (simp add: setGeminiApiKeys_def trim_k1 trim_blank trim_k2 Let_def)

theorem C3_rotation_fairness_witness:
  "setGeminiApiKeys [str ''k1'', str '' '', str '' k2 ''] initial =
     (Inr (), \<lparr>API_KEY_STATES = [freshKey (str ''k1''), freshKey (str '' k2 '')],
               currentKeyIndex = 0\<rparr>)
   \<and> length [10, 20, 30, 40 :: int] = 2 * 2
   \<and> fst (selections [10, 20, 30, 40]
          \<lparr>API_KEY_STATES = [freshKey (str ''k1''), freshKey (str '' k2 '')], currentKeyIndex = 0\<rparr>)
        = [Inr (str ''k1'', 0), Inr (str ''k2'', 1), Inr (str ''k1'', 0), Inr (str ''k2'', 1)]
   \<and> usageCount (API_KEY_STATES (snd (selections [10, 20, 30, 40]
          \<lparr>API_KEY_STATES = [freshKey (str ''k1''), freshKey (str '' k2 '')], currentKeyIndex = 0\<rparr>)) ! 1)
        = 2"
proof -
  have upt4: "[0 ..< 4] = [0, 1, 2, 3::nat]"
    by code_simp
  have mods: "2 mod Suc (Suc 0) = 0" "3 mod Suc (Suc 0) = Suc 0"
    by code_simp+
  let ?m = "\<lparr>API_KEY_STATES = [freshKey (str ''k1''), freshKey (str '' k2 '')], currentKeyIndex = 0\<rparr>"
  have len: "length [10, 20, 30, 40 :: int] = 2 * length (API_KEY_STATES ?m)"
    by simp
  note fair = C3_rotation_fairness [OF setKeys_two refl len]
  from fair have "fst (selections [10, 20, 30, 40] ?m)
      = map (\<lambda>i. Inr (key (API_KEY_STATES ?m ! (i mod length (API_KEY_STATES ?m))),
                       i mod length (API_KEY_STATES ?m)))
          [0 ..< 2 * length (API_KEY_STATES ?m)]"
    by blast
  then have r: "fst (selections [10, 20, 30, 40] ?m)
      = [Inr (str ''k1'', 0), Inr (str ''k2'', 1), Inr (str ''k1'', 0), Inr (str ''k2'', 1)]"
    by (simp add: upt4 mods freshKey_def trim_k1 trim_k2 del: selections.simps)
  from fair have "\<forall>j < length (API_KEY_STATES ?m).
      usageCount (API_KEY_STATES (snd (selections [10, 20, 30, 40] ?m)) ! j) = 2"
    by blast
  then have u: "usageCount (API_KEY_STATES (snd (selections [10, 20, 30, 40] ?m)) ! 1) = 2"
    by (simp del: selections.simps)
  show ?thesis
    using setKeys_two r u by (simp del: selections.simps)
qed


section \<open>Properties of the retrying call\<close>

lemma getNext_total:
  assumes "currentKeyIndex m < length (API_KEY_STATES m)"
  shows "\<exists>apiKey keyIndex m1. getNextGeminiKey now m = (Inr (apiKey, keyIndex), m1)
           \<and> keyIndex < length (API_KEY_STATES m)
           \<and> length (API_KEY_STATES m1) = length (API_KEY_STATES m)
           \<and> currentKeyIndex m1 < length (API_KEY_STATES m1)"
proof -
  have ne: "length (API_KEY_STATES m) \<noteq> 0"
    using assms by auto
  show ?thesis
  proof (cases "scan (API_KEY_STATES m) (currentKeyIndex m) 0")
    case (Hit i)
    then have "i < length (API_KEY_STATES m)"
      by (simp add: scan_Hit)
    then show ?thesis
      using Hit ne by (subst getNextGeminiKey.simps) (simp add: mod_below)
  next
    case Miss
    let ?r = "m\<lparr>API_KEY_STATES := resetAll (API_KEY_STATES m)\<rparr>"
    have eq: "getNextGeminiKey now m = getNextGeminiKey now ?r"
      using Miss ne by (subst getNextGeminiKey.simps) simp
    have "isActive (API_KEY_STATES ?r ! currentKeyIndex ?r)"
      using assms by (simp add: resetAll_nth)
    moreover have "currentKeyIndex ?r < length (API_KEY_STATES ?r)"
      using assms by simp
    ultimately have "getNextGeminiKey now ?r =
        (Inr (key (API_KEY_STATES ?r ! currentKeyIndex ?r), currentKeyIndex ?r),
         ?r\<lparr>API_KEY_STATES := select now (currentKeyIndex ?r) (API_KEY_STATES ?r),
            currentKeyIndex := (currentKeyIndex ?r + 1) mod length (API_KEY_STATES ?r)\<rparr>)"
      by (rule getNext_active [rotated])
    then show ?thesis
      using assms unfolding eq by (simp add: mod_below)
  next
    case Crash
    then show ?thesis
      using scan_no_Crash [OF assms] by simp
  qed
qed

lemma markKeyError_shape [simp]:
  "length (API_KEY_STATES (markKeyError k e m)) = length (API_KEY_STATES m)"
  "currentKeyIndex (markKeyError k e m) = currentKeyIndex m"
  by (simp_all add: markKeyError_def Let_def)

lemma markKeySuccess_shape [simp]:
  "length (API_KEY_STATES (markKeySuccess k m)) = length (API_KEY_STATES m)"
  "currentKeyIndex (markKeySuccess k m) = currentKeyIndex m"
  by (simp_all add: markKeySuccess_def)

lemma handleReply_facts:
  assumes "handleReply te r k a mx m = (res, m2, waits)"
  shows "res = textOf r"
    and "length (API_KEY_STATES m2) = length (API_KEY_STATES m)"
    and "currentKeyIndex m2 = currentKeyIndex m"
    and "fetches waits = []"
  using assms
  by (auto simp: handleReply_def caught_def Let_def
      split: reply.splits body.splits if_splits option.splits bool.splits)

lemma fetches_append [simp]: "fetches (xs @ ys) = fetches xs @ fetches ys"
  by (induction xs rule: fetches.induct) simp_all

lemma retry_call_ok:
  assumes "currentKeyIndex m < length (API_KEY_STATES m)"
  shows "call_ok fetch mx a (retry te fetch clock mx a m)"
  using assms
proof (induction "mx - a" arbitrary: a m)
  case 0
  then have "\<not> a < mx"
    by simp
  then show ?case
    by (subst retry.simps) (simp add: call_ok_def max_def)
next
  case (Suc d)
  then have lt: "a < mx"
    by simp
  obtain apiKey keyIndex m1 where
    g: "getNextGeminiKey (clock (a + 1)) m = (Inr (apiKey, keyIndex), m1)"
    and c1: "currentKeyIndex m1 < length (API_KEY_STATES m1)"
    using getNext_total [OF Suc.prems, of "clock (a + 1)"] by blast
  obtain res m2 waits where
    h: "handleReply te (fetch (a + 1) apiKey) (int keyIndex) (a + 1) mx m1 = (res, m2, waits)"
    by (metis prod_cases3)
  note hf = handleReply_facts [OF h]
  show ?case
  proof (cases res)
    case (Some t)
    then show ?thesis
      using lt g h hf
      by (subst retry.simps) (simp add: call_ok_def max_def)
  next
    case None
    have c2: "currentKeyIndex m2 < length (API_KEY_STATES m2)"
      using c1 hf by simp
    have d: "d = mx - (a + 1)"
      using Suc.hyps(2) by simp
    have ih: "call_ok fetch mx (a + 1) (retry te fetch clock mx (a + 1) m2)"
      using Suc.hyps(1) [OF d c2] .
    obtain result n m3 later where
      r: "retry te fetch clock mx (a + 1) m2 = (result, n, m3, later)"
      by (metis prod_cases4)
    have un: "retry te fetch clock mx a m =
        (result, n, m3, Select (a + 1) # Fetch (a + 1) apiKey # waits @ later)"
      using lt g h None r by (subst retry.simps) simp
    have an: "a + 1 \<le> n" and nm: "n \<le> mx"
      and fs: "map fst (fetches later) = [a + 2 ..< n + 1]"
      using ih lt unfolding r call_ok_def by (simp_all add: max_def)
    let ?trace = "Select (a + 1) # Fetch (a + 1) apiKey # waits @ later"
    have ft: "fetches ?trace = (a + 1, apiKey) # fetches later"
      by (simp add: hf(4))
    have upt: "[a + 1 ..< n + 1] = (a + 1) # [a + 2 ..< n + 1]"
      using an by (simp add: upt_conv_Cons)
    have fm: "map fst (fetches ?trace) = [a + 1 ..< n + 1]"
      unfolding ft upt using fs by simp
    have none: "textOf (fetch (a + 1) apiKey) = None"
      using hf(1) None by simp
    have bounds: "a \<le> n" "n \<le> max a mx"
      using an nm by simp_all
    show ?thesis
    proof (cases result)
      case (Inl e)
      then have "e = Error (exhausted n)" "n = max a mx"
        "\<forall>(j, k) \<in> set (fetches later). textOf (fetch j k) = None"
        using ih lt unfolding r call_ok_def by (simp_all add: max_def)
      then have "\<forall>(j, k) \<in> set (fetches ?trace). textOf (fetch j k) = None"
        unfolding ft using none by simp
      then show ?thesis
        unfolding un call_ok_def Inl prod.case sum.case
        using bounds fm \<open>e = Error (exhausted n)\<close> \<open>n = max a mx\<close> by blast
    next
      case (Inr t)
      then have ne: "fetches later \<noteq> []"
        and tx: "textOf (fetch n (snd (last (fetches later)))) = Some t"
        and bl: "\<forall>(j, k) \<in> set (butlast (fetches later)). textOf (fetch j k) = None"
        using ih unfolding r call_ok_def by simp_all
      have "fetches ?trace \<noteq> []"
        unfolding ft by simp
      moreover have "textOf (fetch n (snd (last (fetches ?trace)))) = Some t"
        unfolding ft using ne tx by simp
      moreover have "\<forall>(j, k) \<in> set (butlast (fetches ?trace)). textOf (fetch j k) = None"
        unfolding ft using ne bl none by simp
      ultimately show ?thesis
        unfolding un call_ok_def Inr prod.case sum.case
        using bounds fm by blast
    qed
  qed
qed

lemma numToString_0: "numToString 0 = str ''0''"
  by (subst numToString.simps) (simp add: str_def)

lemma digitsValue_snoc: "digitsValue (ds @ [d]) = 10 * digitsValue ds + (d - 48)"
  by (simp add: digitsValue_def)

lemma numToString_digits:
  "digitsValue (numToString n) = n \<and> list_all isDigit (numToString n)"
proof (induction n rule: numToString.induct)
  case (1 n)
  show ?case
  proof (cases "n < 10")
    case True
    then have "isDigit (48 + n)"
      by (simp add: isDigit_def)
    then show ?thesis
      using True by (subst (1 2) numToString.simps) (simp add: digitsValue_def)
  next
    case False
    have "n mod 10 < 10"
      by simp
    then have "48 + n mod 10 \<le> 57"
      by linarith
    then have "isDigit (48 + n mod 10)"
      by (simp add: isDigit_def)
    then show ?thesis
      using False 1
      by (subst (1 2) numToString.simps) (simp add: digitsValue_snoc)
  qed
qed

lemma numToString_not_Nil: "numToString n \<noteq> []"
  by (subst numToString.simps) simp

lemma numToString_leading: "0 < n \<Longrightarrow> hd (numToString n) \<noteq> 48"
proof (induction n rule: numToString.induct)
  case (1 n)
  show ?case
  proof (cases "n < 10")
    case True
    then show ?thesis
      using 1(2) by (subst numToString.simps) simp
  next
    case False
    then have "0 < n div 10"
      by simp
    then have "hd (numToString (n div 10)) \<noteq> 48"
      using False 1(1) by simp
    then show ?thesis
      using False by (subst numToString.simps) (simp add: numToString_not_Nil)
  qed
qed

lemma numToString_decimal: "decimalOf n (numToString n)"
proof -
  have "numToString n = [48]" if "hd (numToString n) = 48"
  proof -
    have "n = 0"
      using that numToString_leading [of n] by auto
    then show ?thesis
      by (simp add: numToString_0 str_def)
  qed
  then show ?thesis
    using numToString_digits [of n] numToString_not_Nil [of n] by (simp add: decimalOf_def)
qed

lemma numToString_3: "numToString 3 = str ''3''"
  by (subst numToString.simps) (simp add: str_def)

lemma run_one_key: "run [SetKeys [str ''k1'']] initial = one_key"
  by (simp add: run_def initial_def setGeminiApiKeys_def trim_k1 Let_def one_key_def)

lemma getNext_single:
  "getNextGeminiKey now
     \<lparr>API_KEY_STATES = [\<lparr>key = k, usageCount = u, errorCount = e, lastError = l,
        lastUsedAt = t, isActive = True\<rparr>], currentKeyIndex = 0\<rparr>
   = (Inr (k, 0),
      \<lparr>API_KEY_STATES = [\<lparr>key = k, usageCount = u + 1, errorCount = e, lastError = l,
        lastUsedAt = Some now, isActive = True\<rparr>], currentKeyIndex = 0\<rparr>)"
  by (subst getNext_active) (simp_all add: select_def)

lemma getNext_one_key:
  "getNextGeminiKey 5 one_key
   = (Inr (str ''k1'', 0),
      \<lparr>API_KEY_STATES = [\<lparr>key = str ''k1'', usageCount = 1, errorCount = 0, lastError = None,
        lastUsedAt = Some 5, isActive = True\<rparr>], currentKeyIndex = 0\<rparr>)"
  by (simp add: one_key_def freshKey_def trim_k1 getNext_single)

lemma trim_hi: "trim (str ''hi'') = str ''hi''"
  by (simp add: trim_def str_def isSpace_def)

lemma errorMessageOf_not_json:
  "lexJson errorText = None \<Longrightarrow> errorMessageOf errorText = JString errorText"
  by (simp add: errorMessageOf_def JSON_parse_def)

lemma lexJson_quota: "lexJson (str ''quota'') = None"
  by (simp add: str_def isDigit_def)

lemma lexJson_busy: "lexJson (str ''busy'') = None"
  by (simp add: str_def isDigit_def)






lemma handleReply_overload:
  assumes "status = 429 \<or> status \<ge> 500"
  shows "handleReply te (NotOk status errorText) k a mx m
      = (None, markKeyError k (errorMessageOf errorText) m, [Sleep 10000])"
  using assms by (auto simp: handleReply_def Let_def)




text \<open>
  A status 400 or 403 whose \<open>error.message\<close> is a number, \<open>true\<close> or an object: the error is
  marked, \<open>includes\<close> throws, and the \<open>catch\<close> block marks the credential a second time and
  waits when the budget leaves another attempt.
\<close>

lemma handleReply_message_without_includes:
  assumes "status = 400 \<or> status = 403"
    and "valueIncludes (errorMessageOf errorText) p = None"
  shows "handleReply te (NotOk status errorText) k a mx m
      = (None,
         markKeyError k (JString (te status)) (markKeyError k (errorMessageOf errorText) m),
         if a < mx then [Sleep 10000] else [])"
proof -
  have "valueIncludes (errorMessageOf errorText) q = None" for q
    using assms(2) by (cases "errorMessageOf errorText") simp_all
  then show ?thesis
    using assms(1) by (auto simp: handleReply_def Let_def caught_def)
qed

lemma errorMessageOf_numericMessageBody:
  "errorMessageOf numericMessageBody = JNumber (str ''42'')"
  by (simp add: errorMessageOf_def JSON_parse_def numericMessageBody_def str_def isDigit_def
      lexNumber_def lexInt_def lexFraction_def lexExponent_def numberIsZero_def digitsValue_def
      Let_def)

lemma handleReply_numeric_message:
  "handleReply notAFunction (NotOk 400 numericMessageBody) 0 1 3 one_key
   = (None,
      \<lparr>API_KEY_STATES = [\<lparr>key = str ''k1'', usageCount = 0, errorCount = 2,
        lastError = Some (JString (str ''errorMessage.includes is not a function'')),
        lastUsedAt = None, isActive = True\<rparr>], currentKeyIndex = 0\<rparr>,
      [Sleep 10000])"
proof -
  have "valueIncludes (errorMessageOf numericMessageBody) (str ''API key not valid'') = None"
    by (simp add: errorMessageOf_numericMessageBody)
  then have "handleReply notAFunction (NotOk 400 numericMessageBody) 0 1 3 one_key
      = (None,
         markKeyError 0 (JString (notAFunction 400))
           (markKeyError 0 (errorMessageOf numericMessageBody) one_key),
         if (1::nat) < 3 then [Sleep 10000] else [])"
    by (intro handleReply_message_without_includes) simp_all
  then show ?thesis
    by (simp add: errorMessageOf_numericMessageBody markKeyError_def one_key_def freshKey_def
        trim_k1 notAFunction_def Let_def)
qed




lemma call_flaky:
  "callGeminiAPI notAFunction flaky (\<lambda>n. 5) (str ''hi'') one_key
   = (Inr (str ''[]''), 2,
      \<lparr>API_KEY_STATES = [\<lparr>key = str ''k1'', usageCount = 2, errorCount = 0, lastError = None,
        lastUsedAt = Some 5, isActive = True\<rparr>], currentKeyIndex = 0\<rparr>,
      [Select 1, Fetch 1 (str ''k1''), Sleep 10000, Select 2, Fetch 2 (str ''k1'')])"
proof -
  have "callGeminiAPI notAFunction flaky (\<lambda>n. 5) (str ''hi'') one_key
      = retry notAFunction flaky (\<lambda>n. 5) 3 0 one_key"
    by (simp add: callGeminiAPI_def trim_hi one_key_def)
  also have "\<dots> = (case retry notAFunction flaky (\<lambda>n. 5) 3 1
        \<lparr>API_KEY_STATES = [\<lparr>key = str ''k1'', usageCount = 1, errorCount = 1,
           lastError = Some (JString (str ''quota'')), lastUsedAt = Some 5, isActive = True\<rparr>],
         currentKeyIndex = 0\<rparr> of
      (result, n, m3, later) \<Rightarrow>
        (result, n, m3, Select 1 # Fetch 1 (str ''k1'') # [Sleep 10000] @ later))"
    by (subst retry.simps)
      (simp add: getNext_one_key flaky_def handleReply_overload
        errorMessageOf_not_json lexJson_quota markKeyError_def Let_def)
  also have "retry notAFunction flaky (\<lambda>n. 5) 3 1
        \<lparr>API_KEY_STATES = [\<lparr>key = str ''k1'', usageCount = 1, errorCount = 1,
           lastError = Some (JString (str ''quota'')), lastUsedAt = Some 5, isActive = True\<rparr>],
         currentKeyIndex = 0\<rparr>
      = (Inr (str ''[]''), 2,
         \<lparr>API_KEY_STATES = [\<lparr>key = str ''k1'', usageCount = 2, errorCount = 0,
            lastError = None, lastUsedAt = Some 5, isActive = True\<rparr>], currentKeyIndex = 0\<rparr>,
         [Select 2, Fetch 2 (str ''k1'')])"
    by (subst retry.simps)
      (simp add: getNext_single flaky_def handleReply_def markKeySuccess_def)
  finally show ?thesis
    by simp
qed

lemma call_busy:
  "callGeminiAPI notAFunction busy_service (\<lambda>n. 5) (str ''hi'') one_key
   = (Inl (Error (str ''Failed to generate content after 3 attempts across all API keys. Please check your API keys and try again.'')),
      3,
      \<lparr>API_KEY_STATES = [\<lparr>key = str ''k1'', usageCount = 3, errorCount = 3,
        lastError = Some (JString (str ''busy'')), lastUsedAt = Some 5, isActive = False\<rparr>],
       currentKeyIndex = 0\<rparr>,
      [Select 1, Fetch 1 (str ''k1''), Sleep 10000, Select 2, Fetch 2 (str ''k1''), Sleep 10000,
       Select 3, Fetch 3 (str ''k1''), Sleep 10000])"
proof -
  let ?s = "\<lambda>u e l t a. \<lparr>API_KEY_STATES = [\<lparr>key = str ''k1'', usageCount = u, errorCount = e,
      lastError = l, lastUsedAt = t, isActive = a\<rparr>], currentKeyIndex = 0\<rparr>"
  let ?b = "Some (JString (str ''busy''))"
  have step: "retry notAFunction busy_service (\<lambda>n. 5) 3 a (?s u e l t True)
      = (case retry notAFunction busy_service (\<lambda>n. 5) 3 a'
             (?s u' e' ?b (Some 5) (e' < 3)) of
           (result, n, m3, later) \<Rightarrow>
             (result, n, m3, Select a' # Fetch a' (str ''k1'') # [Sleep 10000] @ later))"
    if "a < 3" and "a' = a + 1" and "u' = u + 1" and "e' = e + 1" for a a' u u' e e' l t
    using that
    by (subst retry.simps)
      (simp add: getNext_single busy_service_def handleReply_overload
        errorMessageOf_not_json lexJson_busy markKeyError_def Let_def)
  have stop: "retry notAFunction busy_service (\<lambda>n. 5) 3 3 m
      = (Inl (Error (exhausted 3)), 3, m, [])" for m
    by (subst retry.simps) simp
  have third: "retry notAFunction busy_service (\<lambda>n. 5) 3 2 (?s 2 2 ?b (Some 5) True)
      = (Inl (Error (exhausted 3)), 3, ?s 3 3 ?b (Some 5) False,
         [Select 3, Fetch 3 (str ''k1''), Sleep 10000])"
  proof -
    have "retry notAFunction busy_service (\<lambda>n. 5) 3 2 (?s 2 2 ?b (Some 5) True)
        = (case retry notAFunction busy_service (\<lambda>n. 5) 3 3 (?s 3 3 ?b (Some 5) ((3::nat) < 3)) of
             (result, n, m3, later) \<Rightarrow>
               (result, n, m3, Select 3 # Fetch 3 (str ''k1'') # [Sleep 10000] @ later))"
      by (rule step) simp_all
    also have "retry notAFunction busy_service (\<lambda>n. 5) 3 3 (?s 3 3 ?b (Some 5) ((3::nat) < 3))
        = (Inl (Error (exhausted 3)), 3, ?s 3 3 ?b (Some 5) ((3::nat) < 3), [])"
      by (rule stop)
    finally show ?thesis
      by simp
  qed
  have second: "retry notAFunction busy_service (\<lambda>n. 5) 3 1 (?s 1 1 ?b (Some 5) True)
      = (Inl (Error (exhausted 3)), 3, ?s 3 3 ?b (Some 5) False,
         [Select 2, Fetch 2 (str ''k1''), Sleep 10000,
          Select 3, Fetch 3 (str ''k1''), Sleep 10000])"
  proof -
    have "retry notAFunction busy_service (\<lambda>n. 5) 3 1 (?s 1 1 ?b (Some 5) True)
        = (case retry notAFunction busy_service (\<lambda>n. 5) 3 2 (?s 2 2 ?b (Some 5) ((2::nat) < 3)) of
             (result, n, m3, later) \<Rightarrow>
               (result, n, m3, Select 2 # Fetch 2 (str ''k1'') # [Sleep 10000] @ later))"
      by (rule step) simp_all
    also have "retry notAFunction busy_service (\<lambda>n. 5) 3 2 (?s 2 2 ?b (Some 5) ((2::nat) < 3))
        = (Inl (Error (exhausted 3)), 3, ?s 3 3 ?b (Some 5) False,
           [Select 3, Fetch 3 (str ''k1''), Sleep 10000])"
      using third by simp
    finally show ?thesis
      by simp
  qed
  have first: "retry notAFunction busy_service (\<lambda>n. 5) 3 0 (?s 0 0 None None True)
      = (Inl (Error (exhausted 3)), 3, ?s 3 3 ?b (Some 5) False,
         [Select 1, Fetch 1 (str ''k1''), Sleep 10000, Select 2, Fetch 2 (str ''k1''), Sleep 10000,
          Select 3, Fetch 3 (str ''k1''), Sleep 10000])"
  proof -
    have "retry notAFunction busy_service (\<lambda>n. 5) 3 0 (?s 0 0 None None True)
        = (case retry notAFunction busy_service (\<lambda>n. 5) 3 1 (?s 1 1 ?b (Some 5) ((1::nat) < 3)) of
             (result, n, m3, later) \<Rightarrow>
               (result, n, m3, Select 1 # Fetch 1 (str ''k1'') # [Sleep 10000] @ later))"
      by (rule step) simp_all
    also have "retry notAFunction busy_service (\<lambda>n. 5) 3 1 (?s 1 1 ?b (Some 5) ((1::nat) < 3))
        = (Inl (Error (exhausted 3)), 3, ?s 3 3 ?b (Some 5) False,
           [Select 2, Fetch 2 (str ''k1''), Sleep 10000,
            Select 3, Fetch 3 (str ''k1''), Sleep 10000])"
      using second by simp
    finally show ?thesis
      by simp
  qed
  have "callGeminiAPI notAFunction busy_service (\<lambda>n. 5) (str ''hi'') one_key
      = retry notAFunction busy_service (\<lambda>n. 5) 3 0 (?s 0 0 None None True)"
    by (simp add: callGeminiAPI_def trim_hi one_key_def freshKey_def trim_k1)
  also note first
  finally show ?thesis
    by (simp add: exhausted_def numToString_3 str_def)
qed

subsection \<open>The claims about the call\<close>

text \<open>
  C4, as the code has it. A call with a non-blank prompt (one that \<open>trim\<close> does not empty) on
  a reachable pool of \<open>poolSize\<close> credentials makes at most \<open>3 * poolSize\<close> attempts, numbered 1
  to \<open>n\<close> in its trace. When no reply carries text, it throws the error whose message holds
  the decimal numeral of \<open>n\<close>, the number of attempts made, and \<open>n\<close> is the whole budget. When
  it returns a text, that text is the reply of the last attempt made, no earlier reply had
  text, and \<open>n\<close> is that attempt's number: nothing is attempted after it.
\<close>

theorem C4_retry_budget:
  assumes "m = run ops initial" and "trim prompt \<noteq> []"
  shows "case callGeminiAPI typeError fetch clock prompt m of
           (result, n, m', trace) \<Rightarrow>
             n \<le> 3 * length (API_KEY_STATES m)
             \<and> map fst (fetches trace) = [1 ..< n + 1]
             \<and> ((\<forall>(j, k) \<in> set (fetches trace). textOf (fetch j k) = None) \<longrightarrow>
                  result = Inl (Error (str ''Failed to generate content after '' @ numToString n
                    @ str '' attempts across all API keys. Please check your API keys and try again.''))
                  \<and> n = 3 * length (API_KEY_STATES m))
             \<and> (\<forall>e. result = Inl e \<longrightarrow>
                  e = Error (str ''Failed to generate content after '' @ numToString n
                    @ str '' attempts across all API keys. Please check your API keys and try again.'')
                  \<and> decimalOf n (numToString n)
                  \<and> n = 3 * length (API_KEY_STATES m)
                  \<and> (\<forall>(j, k) \<in> set (fetches trace). textOf (fetch j k) = None))
             \<and> (\<forall>responseText. result = Inr responseText \<longrightarrow>
                  fetches trace \<noteq> []
                  \<and> textOf (fetch n (snd (last (fetches trace)))) = Some responseText
                  \<and> (\<forall>(j, k) \<in> set (butlast (fetches trace)). textOf (fetch j k) = None))"
proof -
  let ?N = "length (API_KEY_STATES m)"
  have p: "prompt \<noteq> []"
    using assms(2) by (auto simp: trim_def)
  have call: "callGeminiAPI typeError fetch clock prompt m
      = retry typeError fetch clock (?N * 3) 0 m"
    using assms(2) p by (simp add: callGeminiAPI_def)
  have ok: "call_ok fetch (?N * 3) 0 (retry typeError fetch clock (?N * 3) 0 m)"
  proof (cases "API_KEY_STATES m = []")
    case True
    then show ?thesis
      by (subst retry.simps) (simp add: call_ok_def)
  next
    case False
    have "cursor_ok m"
      unfolding assms(1) by (rule run_cursor_ok) (rule initial_ok)
    then have "currentKeyIndex m < length (API_KEY_STATES m)"
      using False by (simp add: cursor_ok_def)
    then show ?thesis
      by (rule retry_call_ok)
  qed
  obtain result n m' trace where
    r: "retry typeError fetch clock (?N * 3) 0 m = (result, n, m', trace)"
    by (metis prod_cases4)
  have last_in: "last xs \<in> set xs" if "xs \<noteq> []" for xs :: "(nat \<times> jsstring) list"
    using that by simp
  have n1: "1 \<le> n" if "fetches trace \<noteq> []"
  proof (rule ccontr)
    assume "\<not> 1 \<le> n"
    then have "n = 0" by simp
    then have "map fst (fetches trace) = []"
      using ok unfolding r call_ok_def by simp
    then show False using that by simp
  qed
  have lastn: "fst (last (fetches trace)) = n" if ne: "fetches trace \<noteq> []"
  proof -
    have "map fst (fetches trace) = [0 + 1 ..< n + 1]"
      using ok unfolding r call_ok_def by simp
    moreover have "last (map fst (fetches trace)) = fst (last (fetches trace))"
      using ne by (simp add: last_map)
    moreover have "last [0 + 1 ..< n + 1] = n"
      using n1 [OF ne] by simp
    ultimately show ?thesis by simp
  qed
  have contra: False
    if all: "\<forall>(j, k) \<in> set (fetches trace). textOf (fetch j k) = None"
      and ne: "fetches trace \<noteq> []"
      and tx: "textOf (fetch n (snd (last (fetches trace)))) = Some t" for t
  proof -
    have "last (fetches trace) \<in> set (fetches trace)"
      using ne by (rule last_in)
    then have "textOf (fetch (fst (last (fetches trace))) (snd (last (fetches trace)))) = None"
      using all by (auto simp: split_def)
    then show False
      using tx lastn [OF ne] by simp
  qed
  have bound: "n \<le> 3 * ?N" and nums: "map fst (fetches trace) = [1 ..< n + 1]"
    using ok unfolding r call_ok_def by (simp_all add: mult.commute del: upt_Suc)
  note dec = numToString_decimal [of n]
  show ?thesis
  proof (cases result)
    case (Inl e)
    then have "e = Error (str ''Failed to generate content after '' @ numToString n
        @ str '' attempts across all API keys. Please check your API keys and try again.'')"
      "n = 3 * ?N"
      "\<forall>(j, k) \<in> set (fetches trace). textOf (fetch j k) = None"
      using ok unfolding r call_ok_def by (simp_all add: mult.commute exhausted_def)
    then show ?thesis
      unfolding call r prod.case using Inl bound nums dec by blast
  next
    case (Inr t)
    then have ne: "fetches trace \<noteq> []"
      and tx: "textOf (fetch n (snd (last (fetches trace)))) = Some t"
      and bl: "\<forall>(j, k) \<in> set (butlast (fetches trace)). textOf (fetch j k) = None"
      using ok unfolding r call_ok_def by simp_all
    have "\<not> (\<forall>(j, k) \<in> set (fetches trace). textOf (fetch j k) = None)"
      using contra [OF _ ne tx] by blast
    then show ?thesis
      unfolding call r prod.case using Inr bound nums ne tx bl by blast
  qed
qed

theorem C4_retry_budget_witness:
  "one_key = run [SetKeys [str ''k1'']] initial \<and> trim (str ''hi'') \<noteq> []
   \<and> callGeminiAPI notAFunction flaky (\<lambda>n. 5) (str ''hi'') one_key
      = (Inr (str ''[]''), 2,
         \<lparr>API_KEY_STATES = [\<lparr>key = str ''k1'', usageCount = 2, errorCount = 0,
            lastError = None, lastUsedAt = Some 5, isActive = True\<rparr>], currentKeyIndex = 0\<rparr>,
         [Select 1, Fetch 1 (str ''k1''), Sleep 10000, Select 2, Fetch 2 (str ''k1'')])
   \<and> (2::nat) \<le> 3 * length (API_KEY_STATES one_key)
   \<and> textOf (flaky 2 (str ''k1'')) = Some (str ''[]'')
   \<and> textOf (flaky 1 (str ''k1'')) = None
   \<and> callGeminiAPI notAFunction busy_service (\<lambda>n. 5) (str ''hi'') one_key
      = (Inl (Error (str ''Failed to generate content after 3 attempts across all API keys. Please check your API keys and try again.'')),
         3,
         \<lparr>API_KEY_STATES = [\<lparr>key = str ''k1'', usageCount = 3, errorCount = 3,
           lastError = Some (JString (str ''busy'')), lastUsedAt = Some 5, isActive = False\<rparr>],
          currentKeyIndex = 0\<rparr>,
         [Select 1, Fetch 1 (str ''k1''), Sleep 10000, Select 2, Fetch 2 (str ''k1''),
          Sleep 10000, Select 3, Fetch 3 (str ''k1''), Sleep 10000])
   \<and> decimalOf 3 (str ''3'')
   \<and> (3::nat) = 3 * length (API_KEY_STATES one_key)"
proof -
  have a: "one_key = run [SetKeys [str ''k1'']] initial"
    by (simp add: run_one_key)
  have b: "trim (str ''hi'') \<noteq> []"
    by (simp add: trim_hi)
  have "decimalOf 3 (numToString 3)"
    using C4_retry_budget [OF a b, where typeError = notAFunction and fetch = busy_service
        and clock = "\<lambda>n. 5"]
    unfolding call_busy by simp
  then have c: "decimalOf 3 (str ''3'')"
    by (simp add: numToString_3)
  have d: "(3::nat) = 3 * length (API_KEY_STATES one_key)"
    by (simp add: one_key_def)
  show ?thesis
    using C4_retry_budget [OF a b, where typeError = notAFunction and fetch = flaky
        and clock = "\<lambda>n. 5"] a b c d
    by (simp add: call_flaky call_busy)
qed

text \<open>
  C4 as the spec states it, for every non-empty prompt, fails on the prompt of one space: it
  is not empty, no attempt is made, and the error thrown is \<open>Prompt cannot be empty\<close>, not the
  error that carries the count of attempts.
\<close>

theorem C4_counterexample:
  "str '' '' \<noteq> []
   \<and> callGeminiAPI notAFunction flaky (\<lambda>n. 5) (str '' '') one_key
      = (Inl (Error (str ''Prompt cannot be empty'')), 0, one_key, [])
   \<and> str ''Prompt cannot be empty''
      \<noteq> str ''Failed to generate content after 0 attempts across all API keys. Please check your API keys and try again.''"
  by (simp add: callGeminiAPI_def trim_blank)

text \<open>
  C5. A call with an empty or blank prompt throws \<open>Prompt cannot be empty\<close> with the pool
  exactly as it was, no credential requested, no outbound request and no wait in its trace,
  and zero attempts counted.
\<close>

theorem C5_empty_prompt:
  assumes "prompt = [] \<or> trim prompt = []"
  shows "callGeminiAPI typeError fetch clock prompt m
      = (Inl (Error (str ''Prompt cannot be empty'')), 0, m, [])"
  using assms by (auto simp: callGeminiAPI_def)

theorem C5_empty_prompt_witness:
  "trim (str ''  '') = []
   \<and> callGeminiAPI notAFunction (\<lambda>n k. Ok (Text (str ''[]''))) (\<lambda>n. 0) (str ''  '')
        (run struck_ops initial)
      = (Inl (Error (str ''Prompt cannot be empty'')), 0, run struck_ops initial, [])"
proof -
  have b: "trim (str ''  '') = []"
    by (simp add: trim_def str_def isSpace_def)
  then show ?thesis
    using C5_empty_prompt [where prompt = "str ''  ''" and typeError = notAFunction
        and fetch = "\<lambda>n k. Ok (Text (str ''[]''))" and clock = "\<lambda>n. 0"
        and m = "run struck_ops initial"]
    by simp
qed

text \<open>
  C9, as the code has it. A call with a non-blank prompt (one that \<open>trim\<close> does not empty) on
  an empty pool never enters the loop: it throws the exhaustion error for 0 attempts, with
  an empty trace (no credential requested) and the state unchanged, and not the error that
  \<open>getNextGeminiKey\<close> raises on an empty pool.
\<close>

theorem C9_empty_pool:
  assumes "API_KEY_STATES m = []" and "trim prompt \<noteq> []"
  shows "callGeminiAPI typeError fetch clock prompt m
      = (Inl (Error (str ''Failed to generate content after 0 attempts across all API keys. Please check your API keys and try again.'')),
         0, m, [])
    \<and> fst (getNextGeminiKey now m)
      = Inl (Error (str ''No Gemini API keys configured. Please add API keys first.''))"
proof -
  have "prompt \<noteq> []"
    using assms(2) by (auto simp: trim_def)
  then have "callGeminiAPI typeError fetch clock prompt m = retry typeError fetch clock 0 0 m"
    using assms by (simp add: callGeminiAPI_def)
  also have "\<dots> = (Inl (Error (exhausted 0)), 0, m, [])"
    by (subst retry.simps) simp
  finally have "callGeminiAPI typeError fetch clock prompt m
      = (Inl (Error (exhausted 0)), 0, m, [])" .
  moreover have "exhausted 0 = str ''Failed to generate content after 0 attempts across all API keys. Please check your API keys and try again.''"
    by (simp add: exhausted_def numToString_0 str_def)
  moreover have "fst (getNextGeminiKey now m)
      = Inl (Error (str ''No Gemini API keys configured. Please add API keys first.''))"
    using assms(1) by (subst getNextGeminiKey.simps) simp
  ultimately show ?thesis
    by simp
qed

theorem C9_empty_pool_witness:
  "API_KEY_STATES initial = [] \<and> trim (str ''hi'') \<noteq> []
   \<and> callGeminiAPI notAFunction (\<lambda>n k. Ok (Text (str ''[]''))) (\<lambda>n. 0) (str ''hi'') initial
      = (Inl (Error (str ''Failed to generate content after 0 attempts across all API keys. Please check your API keys and try again.'')),
         0, initial, [])"
proof -
  have a: "API_KEY_STATES initial = []"
    by (simp add: initial_def)
  have b: "trim (str ''hi'') \<noteq> []"
    by (simp add: trim_def str_def isSpace_def)
  show ?thesis
    using C9_empty_pool [OF a b, where typeError = notAFunction
        and fetch = "\<lambda>n k. Ok (Text (str ''[]''))" and clock = "\<lambda>n. 0" and now = 0] a b
    by simp
qed

text \<open>
  C9 as the spec states it, for every non-empty prompt, fails on the prompt of one space and
  the empty pool: the call throws \<open>Prompt cannot be empty\<close>, not the exhaustion error for 0
  attempts.
\<close>

theorem C9_counterexample:
  "str '' '' \<noteq> [] \<and> API_KEY_STATES initial = []
   \<and> callGeminiAPI notAFunction flaky (\<lambda>n. 5) (str '' '') initial
      = (Inl (Error (str ''Prompt cannot be empty'')), 0, initial, [])
   \<and> fst (callGeminiAPI notAFunction flaky (\<lambda>n. 5) (str '' '') initial)
      \<noteq> Inl (Error (str ''Failed to generate content after 0 attempts across all API keys. Please check your API keys and try again.''))"
  by (simp add: callGeminiAPI_def trim_blank initial_def)



section \<open>Properties of the tolerant parser\<close>

lemma scenario3_matchBrackets: "matchBrackets Array scenario3_text = Some scenario3_match"
  by (simp add: matchBrackets_def scenario3_text_def scenario3_match_def str_def openChar_def
      closeChar_def lastIndexOf_def substring_def)

lemma scenario3_sanitize: "sanitizeJsonString scenario3_match = scenario3_clean"
  by (simp add: sanitizeJsonString_def scenario3_match_def scenario3_clean_def str_def Let_def
      removeFences_def stripLeadingJson_def trim_def isSpace_def protectEscapes_def
      escapeProtector_def replaceClass_def isControl_def restoreEscapes_def smartQuotes_def
      fixUnicodeEscapes_def unicodeEscapeAt_def beforeClose_def validEscapeLetter_def
      isOctal_def isHex_def lower_def)

lemma scenario3_parse:
  "JSON_parse scenario3_clean
     = Some (JArray [JObject [(str ''a'', JString (str ''line one line two''))]])"
  by (simp add: JSON_parse_def scenario3_clean_def str_def isDigit_def)

lemma indexOf_None: "x \<notin> set s \<Longrightarrow> indexOf x s = None"
  by (induction s) auto

lemma matchBrackets_None: "openChar t \<notin> set s \<Longrightarrow> matchBrackets t s = None"
  by (simp add: matchBrackets_def indexOf_None)

lemma set_replaceAll: "set (replaceAll ci pat rep s) \<subseteq> set s \<union> set rep"
proof (induction ci pat rep s rule: replaceAll.induct)
  case (1 ci pat rep)
  show ?case by simp
next
  case (2 ci pat rep c cs)
  show ?case
  proof (cases "pat \<noteq> [] \<and> matchesAt ci (c # cs) pat")
    case True
    have "set (drop (length pat) (c # cs)) \<subseteq> set (c # cs)"
      by (rule set_drop_subset)
    then show ?thesis
      using True 2(1) by auto
  next
    case False
    then show ?thesis
      using 2(2) by auto
  qed
qed

lemma set_replaceClass: "set (replaceClass cls rep s) \<subseteq> set s \<union> set rep"
  by (auto simp: replaceClass_def split: if_splits)

lemma set_collapseSpaces: "set (collapseSpaces inRun s) \<subseteq> set s \<union> {32}"
  by (induction s arbitrary: inRun) auto

lemma set_trim: "set (trim s) \<subseteq> set s"
proof -
  have "set (dropWhile isSpace (rev (dropWhile isSpace s))) \<subseteq> set (rev (dropWhile isSpace s))"
    by (rule set_dropWhileD [THEN subsetI])
  also have "\<dots> \<subseteq> set s"
    using set_dropWhileD [of _ isSpace s] by auto
  finally show ?thesis
    by (simp add: trim_def)
qed

lemma set_stripLeadingJsonBackslash: "set (stripLeadingJsonBackslash s) \<subseteq> set s"
proof -
  have "set (dropWhile P (drop n s)) \<subseteq> set s" for P n
    using set_dropWhileD [of _ P "drop n s"] set_drop_subset [of n s] by auto
  then show ?thesis
    by (simp add: stripLeadingJsonBackslash_def)
qed

lemma set_removeFences: "set (removeFences s) \<subseteq> set s"
proof -
  have "set (replaceAll ci pat [] u) \<subseteq> set u" for ci pat u
    using set_replaceAll [of ci pat "[]" u] by simp
  then show ?thesis
    unfolding removeFences_def by (meson subset_trans)
qed

lemma set_smartQuotes: "set (smartQuotes s) \<subseteq> set s \<union> {34, 39, 46}"
proof -
  have "set (replaceClass (\<lambda>c. c = 34) [34] s) \<subseteq> set s \<union> {34}"
    using set_replaceClass [of "\<lambda>c. c = 34" "[34]" s] by simp
  moreover have "set (replaceClass (\<lambda>c. c = 39) [39] u) \<subseteq> set u \<union> {39}" for u
    using set_replaceClass [of "\<lambda>c. c = 39" "[39]" u] by simp
  moreover have "set (replaceClass (\<lambda>c. c = 8230) (str ''...'') u) \<subseteq> set u \<union> {46}" for u
    using set_replaceClass [of "\<lambda>c. c = 8230" "str ''...''" u] by (simp add: str_def)
  ultimately show ?thesis
    unfolding smartQuotes_def by blast
qed

lemma escapeMap_no_bracket:
  "(escaped, placeholder) \<in> set escapeMap \<Longrightarrow> bracket x \<Longrightarrow> x \<notin> set escaped \<and> x \<notin> set placeholder"
  by (auto simp: escapeMap_def str_def bracket_def)

lemma foldl_protect_no_bracket:
  assumes "bracket x" and "x \<notin> set s" and "set m \<subseteq> set escapeMap"
  shows "x \<notin> set (foldl (\<lambda>s (escaped, placeholder). replaceAll False escaped placeholder s) s m)"
  using assms(2,3)
proof (induction m arbitrary: s)
  case Nil
  then show ?case by simp
next
  case (Cons p m)
  obtain escaped placeholder where p: "p = (escaped, placeholder)"
    by (cases p)
  have "x \<notin> set placeholder"
    using escapeMap_no_bracket [of escaped placeholder x] Cons.prems(2) assms(1) p by simp
  then have "x \<notin> set (replaceAll False escaped placeholder s)"
    using set_replaceAll [of False escaped placeholder s] Cons.prems(1) by auto
  then show ?case
    using Cons.IH Cons.prems(2) p by simp
qed

lemma foldl_restore_no_bracket:
  assumes "bracket x" and "x \<notin> set s" and "set m \<subseteq> set escapeMap"
  shows "x \<notin> set (foldl (\<lambda>s (escaped, placeholder). replaceAll False placeholder escaped s) s m)"
  using assms(2,3)
proof (induction m arbitrary: s)
  case Nil
  then show ?case by simp
next
  case (Cons p m)
  obtain escaped placeholder where p: "p = (escaped, placeholder)"
    by (cases p)
  have "x \<notin> set escaped"
    using escapeMap_no_bracket [of escaped placeholder x] Cons.prems(2) assms(1) p by simp
  then have "x \<notin> set (replaceAll False placeholder escaped s)"
    using set_replaceAll [of False placeholder escaped s] Cons.prems(1) by auto
  then show ?case
    using Cons.IH Cons.prems(2) p by simp
qed

lemma aggressiveClean_no_bracket:
  assumes "bracket x" and "x \<notin> set response"
  shows "x \<notin> set (aggressiveClean response)"
proof -
  let ?cleaned = "trim (stripLeadingJsonBackslash (removeFences response))"
  let ?protected = "foldl (\<lambda>s (escaped, placeholder). replaceAll False escaped placeholder s)
                        ?cleaned escapeMap"
  let ?noControl = "replaceClass (\<lambda>c. c \<le> 31 \<or> (127 \<le> c \<and> c \<le> 159)) [32] ?protected"
  let ?restored = "foldl (\<lambda>s (escaped, placeholder). replaceAll False placeholder escaped s)
                       ?noControl escapeMap"
  have x: "x \<noteq> 32" "x \<noteq> 34" "x \<noteq> 39" "x \<noteq> 46"
    using assms(1) by (auto simp: bracket_def)
  have "set ?cleaned \<subseteq> set response"
    using set_trim set_stripLeadingJsonBackslash set_removeFences by (meson subset_trans)
  then have "x \<notin> set ?cleaned"
    using assms(2) by auto
  then have "x \<notin> set ?protected"
    using assms(1) by (intro foldl_protect_no_bracket) simp_all
  then have "x \<notin> set ?noControl"
    using set_replaceClass [of "\<lambda>c. c \<le> 31 \<or> (127 \<le> c \<and> c \<le> 159)" "[32]" ?protected] x
    by auto
  then have "x \<notin> set ?restored"
    using assms(1) by (intro foldl_restore_no_bracket) simp_all
  then have "x \<notin> set (smartQuotes ?restored)"
    using set_smartQuotes [of ?restored] x by auto
  then have "x \<notin> set (collapseSpaces False (smartQuotes ?restored))"
    using set_collapseSpaces [of False "smartQuotes ?restored"] x by auto
  then show ?thesis
    by (simp add: aggressiveClean_def Let_def)
qed

lemma bracket_openChar: "bracket (openChar t)"
  by (cases t) (simp_all add: bracket_def openChar_def)

lemma startsWith_append: "startsWith s (p @ q) \<Longrightarrow> startsWith s p"
  by (induction s p rule: startsWith.induct) auto

lemma includes_js_append: "includes_js s (p @ q) \<Longrightarrow> includes_js s p"
  by (induction s) (auto dest: startsWith_append)

lemma includes_js_single: "includes_js s [x] \<longleftrightarrow> x \<in> set s"
  by (induction s) auto

lemma numToString_digit: "n < 10 \<Longrightarrow> numToString n = [48 + n]"
  by (subst numToString.simps) simp

lemma tryStrategies_no_bracket:
  assumes "openChar t \<notin> set response"
  shows "tryStrategies strategies 0 syntaxError t response [] = Inl noBracketErrors"
proof -
  have i: "indexOf (openChar t) response = None"
    using assms by (rule indexOf_None)
  have m: "matchBrackets t response = None"
    using assms by (rule matchBrackets_None)
  have "openChar t \<notin> set (aggressiveClean response)"
    using bracket_openChar assms by (rule aggressiveClean_no_bracket)
  then have a: "matchBrackets t (aggressiveClean response) = None"
    by (rule matchBrackets_None)
  have s: "strategy1 syntaxError t response = Inl (str ''No JSON found in response'')"
    "strategy2 syntaxError t response = Inl (str ''No opening bracket found'')"
    "strategy3 syntaxError t response = Inl (str ''Invalid bracket positions'')"
    "strategy4 syntaxError t response = Inl (str ''No JSON after aggressive cleaning'')"
    "strategy5 syntaxError t response = Inl (str ''Cannot find JSON boundaries'')"
    "strategy6 syntaxError t response = Inl (str ''No opening bracket found'')"
    by (simp_all add: strategy1_def strategy2_def strategy3_def strategy4_def strategy5_def
        strategy6_def i m a)
  show ?thesis
    by (simp add: strategies_def s noBracketErrors_def numToString_digit str_def)
qed

lemma length_strategies: "length strategies = 6"
  by (simp add: strategies_def)


subsection \<open>The claims about the parser\<close>

text \<open>
  C7. On the raw text of scenario 3, fenced as \<open>json\<close> and with a line feed inside the string,
  \<open>parseJsonRobust\<close> with expected type \<open>array\<close> returns an array of exactly one record, whose
  member \<open>a\<close> is the string \<open>line one line two\<close>: the two fragments with one space between
  them. This holds whatever messages the host's \<open>JSON.parse\<close> gives.
\<close>

theorem C7_scenario3:
  "parseJsonRobust syntaxError scenario3_text Array
     = Inr (JArray [JObject [(str ''a'', JString (str ''line one line two''))]])"
  by (simp add: parseJsonRobust_def strategies_def strategy1_def scenario3_matchBrackets
      scenario3_sanitize scenario3_parse parseOrThrow_def)

text \<open>
  C8, as the code has it. On a text without an opening bracket of the expected type all six
  strategies throw, and \<open>parseJsonRobust\<close> throws a message that ends with the first
  strategy's error. The category it names is chosen by a chain of tests in which the
  no-bracket test comes third: the message names the missing bracket when the text has
  neither three backticks in a row nor a code unit below U+0020; a text with three backticks
  is reported as markdown, and one without them but with a control character as control
  characters.
\<close>

theorem C8_no_bracket_diagnostic:
  assumes "openChar t \<notin> set response"
  shows "tryStrategies strategies 0 syntaxError t response [] = Inl noBracketErrors
    \<and> parseJsonRobust syntaxError response t
      = Inl (str ''Failed to parse JSON after 6 attempts. Issue: '' @ errorSummary t response
             @ str ''. First error: Strategy 1: No JSON found in response'')
    \<and> (\<not> includes_js response (str ''```'') \<and> (\<forall>c \<in> set response. 32 \<le> c) \<longrightarrow>
          errorSummary t response
            = str ''No '' @ (case t of Array \<Rightarrow> str ''array'' | Object \<Rightarrow> str ''object'')
              @ str '' bracket found in response'')
    \<and> (includes_js response (str ''```'') \<longrightarrow>
          errorSummary t response = str ''Response contains markdown code blocks'')
    \<and> (\<not> includes_js response (str ''```'') \<and> (\<exists>c \<in> set response. c \<le> 31) \<longrightarrow>
          errorSummary t response = str ''Response contains control characters'')"
proof -
  note errs = tryStrategies_no_bracket [OF assms(1), of syntaxError]
  have json: "\<not> includes_js response (str ''```json'')"
    if "\<not> includes_js response (str ''```'')"
    using that includes_js_append [of response "str ''```''" "str ''json''"]
    by (auto simp: str_def)
  have nb: "\<not> includes_js response [openChar t]"
    using assms(1) by (simp add: includes_js_single)
  have s1: "errorSummary t response
      = str ''No '' @ (case t of Array \<Rightarrow> str ''array'' | Object \<Rightarrow> str ''object'')
        @ str '' bracket found in response''"
    if "\<not> includes_js response (str ''```'')" and "\<forall>c \<in> set response. 32 \<le> c"
  proof -
    have "\<not> (\<exists>c \<in> set response. c \<le> 31)"
      using that(2) by force
    then show ?thesis
      using that(1) json nb by (simp add: errorSummary_def)
  qed
  have s2: "errorSummary t response = str ''Response contains markdown code blocks''"
    if "includes_js response (str ''```'')"
    using that by (simp add: errorSummary_def)
  have s3: "errorSummary t response = str ''Response contains control characters''"
    if "\<not> includes_js response (str ''```'')" and "\<exists>c \<in> set response. c \<le> 31"
    using that json by (simp add: errorSummary_def)
  have "parseJsonRobust syntaxError response t
      = Inl (str ''Failed to parse JSON after '' @ numToString 6
             @ str '' attempts. Issue: '' @ errorSummary t response
             @ str ''. First error: '' @ str ''Strategy 1: No JSON found in response'')"
    by (simp add: parseJsonRobust_def errs noBracketErrors_def length_strategies)
  also have "\<dots> = Inl (str ''Failed to parse JSON after 6 attempts. Issue: ''
             @ errorSummary t response
             @ str ''. First error: Strategy 1: No JSON found in response'')"
    by (simp add: numToString_digit str_def)
  finally show ?thesis
    using errs s1 s2 s3 by blast
qed

theorem C8_no_bracket_diagnostic_witness:
  "openChar Object \<notin> set (str ''hello'')
   \<and> \<not> includes_js (str ''hello'') (str ''```'')
   \<and> parseJsonRobust (\<lambda>text. str ''Unexpected token'') (str ''hello'') Object
      = Inl (str ''Failed to parse JSON after 6 attempts. Issue: No object bracket found in response. First error: Strategy 1: No JSON found in response'')"
proof -
  have a: "openChar Object \<notin> set (str ''hello'')"
    by (simp add: openChar_def str_def)
  have b: "\<not> includes_js (str ''hello'') (str ''```'')"
    by (simp add: str_def)
  have c: "\<forall>c \<in> set (str ''hello''). 32 \<le> c"
    by (simp add: str_def)
  note w = C8_no_bracket_diagnostic [OF a, of "\<lambda>text. str ''Unexpected token''"]
  from w b c have "errorSummary Object (str ''hello'')
      = str ''No '' @ str ''object'' @ str '' bracket found in response''"
    by simp
  with w have "parseJsonRobust (\<lambda>text. str ''Unexpected token'') (str ''hello'') Object
      = Inl (str ''Failed to parse JSON after 6 attempts. Issue: ''
             @ (str ''No '' @ str ''object'' @ str '' bracket found in response'')
             @ str ''. First error: Strategy 1: No JSON found in response'')"
    by simp
  also have "str ''Failed to parse JSON after 6 attempts. Issue: ''
             @ (str ''No '' @ str ''object'' @ str '' bracket found in response'')
             @ str ''. First error: Strategy 1: No JSON found in response''
      = str ''Failed to parse JSON after 6 attempts. Issue: No object bracket found in response. First error: Strategy 1: No JSON found in response''"
    by (simp add: str_def)
  finally show ?thesis
    using a b by blast
qed

text \<open>
  C8 as the spec states it, for every text without a bracket of the expected type, fails on a
  text of two words separated by a line feed: the category named is the control characters.
\<close>

theorem C8_counterexample:
  "openChar Array \<notin> set (str ''no'' @ [10] @ str ''json'')
   \<and> parseJsonRobust (\<lambda>text. str ''Unexpected token'') (str ''no'' @ [10] @ str ''json'') Array
      = Inl (str ''Failed to parse JSON after 6 attempts. Issue: Response contains control characters. First error: Strategy 1: No JSON found in response'')"
proof -
  let ?r = "str ''no'' @ [10] @ str ''json''"
  have a: "openChar Array \<notin> set ?r"
    by (simp add: openChar_def str_def)
  have errs: "tryStrategies strategies 0 (\<lambda>text. str ''Unexpected token'') Array ?r []
      = Inl noBracketErrors"
    using a by (rule tryStrategies_no_bracket)
  have sum: "errorSummary Array ?r = str ''Response contains control characters''"
    by (simp add: errorSummary_def str_def)
  have "parseJsonRobust (\<lambda>text. str ''Unexpected token'') ?r Array
      = Inl (str ''Failed to parse JSON after '' @ numToString 6
             @ str '' attempts. Issue: '' @ str ''Response contains control characters''
             @ str ''. First error: '' @ str ''Strategy 1: No JSON found in response'')"
    unfolding parseJsonRobust_def errs sum length_strategies
    by (simp add: noBracketErrors_def)
  also have "str ''Failed to parse JSON after '' @ numToString 6
             @ str '' attempts. Issue: '' @ str ''Response contains control characters''
             @ str ''. First error: '' @ str ''Strategy 1: No JSON found in response''
      = str ''Failed to parse JSON after 6 attempts. Issue: Response contains control characters. First error: Strategy 1: No JSON found in response''"
    by (simp add: numToString_digit str_def)
  finally show ?thesis
    using a by blast
qed


end
